theory Spec2Isabelle
  imports Complex_Main
begin

section \<open>JavaScript values\<close>

text \<open>
  The validators of \<^verbatim>\<open>packages/core/src/validation/index.ts\<close> take a value of type
  \<^verbatim>\<open>unknown\<close>. The model covers the JSON values, \<^verbatim>\<open>undefined\<close>, the three non-finite
  numbers the code tests for (\<^verbatim>\<open>isNaN\<close>, \<^verbatim>\<open>isFinite\<close>) and \<^verbatim>\<open>BigInt\<close>, the primitive value
  that \<^verbatim>\<open>JSON.stringify\<close> refuses. A finite number is a rational (every finite double is
  one). A string is a list of code units; the model has the code units below 256, so that
  \<^verbatim>\<open>s.length\<close> is \<open>length s\<close>. An object is the list of its own enumerable properties in
  enumeration order; arrays and objects are finite trees (a value that contains itself is
  not in the model).
\<close>

datatype jsnum = NaN | PosInf | NegInf | Fin rat

datatype jsval =
    JUndefined
  | JNull
  | JBool bool
  | JNum jsnum
  | JStr string
  | JBigInt int
  | JArr "jsval list"
  | JObj "(string \<times> jsval) list"

text \<open>
  What the platform and the schema library decide and the repository does not: the two
  regular expressions behind \<^verbatim>\<open>z.string().uuid()\<close> and \<^verbatim>\<open>z.string().datetime()\<close>, and the
  text of a finite number (\<^verbatim>\<open>Number.prototype.toString\<close>). They are parameters of the model.
\<close>

record platform =
  uuid_test :: "string \<Rightarrow> bool"
  datetime_test :: "string \<Rightarrow> bool"
  number_toString :: "rat \<Rightarrow> string"

text \<open>Property read \<^verbatim>\<open>obj[key]\<close> and the test \<^verbatim>\<open>key in obj\<close>.\<close>

definition field :: "(string \<times> jsval) list \<Rightarrow> string \<Rightarrow> jsval" where
  "field kvs k = (case map_of kvs k of Some v \<Rightarrow> v | None \<Rightarrow> JUndefined)"

definition has_key :: "(string \<times> jsval) list \<Rightarrow> string \<Rightarrow> bool" where
  "has_key kvs k = (k \<in> set (map fst kvs))"

text \<open>
  Property read \<^verbatim>\<open>v.key\<close> on a value other than \<^verbatim>\<open>null\<close> and \<^verbatim>\<open>undefined\<close>, for the keys
  this code reads (the envelope's): the own property of an object, \<^verbatim>\<open>undefined\<close> on any
  other value.
\<close>

definition js_get :: "jsval \<Rightarrow> string \<Rightarrow> jsval" where
  "js_get v k = (case v of JObj kvs \<Rightarrow> field kvs k | _ \<Rightarrow> JUndefined)"

text \<open>JavaScript truthiness (\<^verbatim>\<open>if (x)\<close>, \<^verbatim>\<open>!x\<close>).\<close>

definition truthy :: "jsval \<Rightarrow> bool" where
  "truthy v = (case v of
       JUndefined \<Rightarrow> False
     | JNull \<Rightarrow> False
     | JBool b \<Rightarrow> b
     | JNum n \<Rightarrow> (case n of NaN \<Rightarrow> False | Fin q \<Rightarrow> q \<noteq> 0 | _ \<Rightarrow> True)
     | JStr s \<Rightarrow> s \<noteq> []
     | JBigInt i \<Rightarrow> i \<noteq> 0
     | JArr _ \<Rightarrow> True
     | JObj _ \<Rightarrow> True)"

text \<open>A value that holds a \<^verbatim>\<open>BigInt\<close>: itself, or in an element or a property at any depth.\<close>

fun has_bigint :: "jsval \<Rightarrow> bool" where
  "has_bigint (JBigInt i) = True"
| "has_bigint (JArr xs) = list_ex has_bigint xs"
| "has_bigint (JObj kvs) = list_ex (\<lambda>(k, x). has_bigint x) kvs"
| "has_bigint v = False"

subsection \<open>Decimal text of a natural number\<close>

definition digit_char :: "nat \<Rightarrow> char" where
  "digit_char d = ''0123456789'' ! d"

fun string_of_nat :: "nat \<Rightarrow> string" where
  "string_of_nat n =
     (if n < 10 then [digit_char n] else string_of_nat (n div 10) @ [digit_char (n mod 10)])"

declare string_of_nat.simps [simp del]

definition string_of_int :: "int \<Rightarrow> string" where
  "string_of_int i = (if i < 0 then CHR ''-'' # string_of_nat (nat (- i)) else string_of_nat (nat i))"

fun join :: "string \<Rightarrow> string list \<Rightarrow> string" where
  "join sep [] = []"
| "join sep [x] = x"
| "join sep (x # y # ys) = x @ sep @ join sep (y # ys)"

text \<open>A string as \<^verbatim>\<open>JSON.stringify\<close> writes it: quoted, with the escapes of JSON.\<close>

definition hex_digit :: "nat \<Rightarrow> char" where
  "hex_digit d = ''0123456789abcdef'' ! d"

definition json_escape :: "char \<Rightarrow> string" where
  "json_escape c =
     (if c = CHR 0x22 then [CHR 0x5C, CHR 0x22]
      else if c = CHR 0x5C then [CHR 0x5C, CHR 0x5C]
      else if c = CHR 0x08 then [CHR 0x5C, CHR ''b'']
      else if c = CHR 0x0C then [CHR 0x5C, CHR ''f'']
      else if c = CHR 0x0A then [CHR 0x5C, CHR ''n'']
      else if c = CHR 0x0D then [CHR 0x5C, CHR ''r'']
      else if c = CHR 0x09 then [CHR 0x5C, CHR ''t'']
      else if (of_char c :: nat) < 32
      then [CHR 0x5C, CHR ''u'', CHR ''0'', CHR ''0'',
            hex_digit (of_char c div 16), hex_digit (of_char c mod 16)]
      else [c])"

definition JSON_quote :: "string \<Rightarrow> string" where
  "JSON_quote s = [CHR 0x22] @ concat (map json_escape s) @ [CHR 0x22]"

text \<open>String conversion of a template literal \<^verbatim>\<open>`${v}`\<close>.\<close>

fun js_toString :: "platform \<Rightarrow> jsval \<Rightarrow> string" where
  "js_toString F JUndefined = ''undefined''"
| "js_toString F JNull = ''null''"
| "js_toString F (JBool b) = (if b then ''true'' else ''false'')"
| "js_toString F (JNum NaN) = ''NaN''"
| "js_toString F (JNum PosInf) = ''Infinity''"
| "js_toString F (JNum NegInf) = ''-Infinity''"
| "js_toString F (JNum (Fin q)) = number_toString F q"
| "js_toString F (JStr s) = s"
| "js_toString F (JBigInt i) = string_of_int i"
| "js_toString F (JArr xs) =
     join '','' (map (\<lambda>x. if x = JUndefined \<or> x = JNull then [] else js_toString F x) xs)"
| "js_toString F (JObj kvs) = ''[object Object]''"

section \<open>The schema library\<close>

text \<open>
  \<^verbatim>\<open>types/index.ts\<close> builds its schemas from the combinators of the zod library (version 3:
  the code reads \<^verbatim>\<open>error.errors\<close>, \<^verbatim>\<open>err.received\<close>, \<^verbatim>\<open>err.expected\<close>). A schema is a value
  of \<open>zschema\<close>, one constructor for each combinator the repository uses, and \<open>zparse\<close>
  is the library's \<^verbatim>\<open>_parse\<close>: it returns the status with the parsed value and the issues
  it has added to the context, in order.
\<close>

datatype string_check = Min nat | Uuid | Datetime

datatype number_check = NMin int | NMax int

datatype zschema =
    ZString "string_check list"
  | ZNumber "number_check list"
  | ZUnknown
  | ZLiteral string
  | ZEnum "string list"
  | ZNativeEnum "string list"
  | ZArray zschema
  | ZTuple "zschema list"
  | ZRecord zschema
  | ZObject "(string \<times> zschema) list"
  | ZOptional zschema
  | ZNullable zschema

datatype path_elem = Key string | Index nat

datatype ZodIssue = ZodIssue (issue_code: string) (issue_message: string)
  (issue_path: "path_elem list") (issue_received: jsval) (issue_expected: jsval)

datatype parse_return = OK jsval | DIRTY jsval | INVALID

definition getParsedType :: "jsval \<Rightarrow> string" where
  "getParsedType v = (case v of
       JUndefined \<Rightarrow> ''undefined''
     | JNull \<Rightarrow> ''null''
     | JBool _ \<Rightarrow> ''boolean''
     | JNum n \<Rightarrow> (if n = NaN then ''nan'' else ''number'')
     | JStr _ \<Rightarrow> ''string''
     | JBigInt _ \<Rightarrow> ''bigint''
     | JArr _ \<Rightarrow> ''array''
     | JObj _ \<Rightarrow> ''object'')"

text \<open>The issues, with the messages of the library's default error map.\<close>

definition invalid_type :: "path_elem list \<Rightarrow> string \<Rightarrow> jsval \<Rightarrow> ZodIssue" where
  "invalid_type pa expected v =
     ZodIssue ''invalid_type''
       (if getParsedType v = ''undefined'' then ''Required''
        else ''Expected '' @ expected @ '', received '' @ getParsedType v)
       pa (JStr (getParsedType v)) (JStr expected)"

definition joinValues :: "string list \<Rightarrow> string" where
  "joinValues vs = join '' | '' (map (\<lambda>v. [CHR 0x27] @ v @ [CHR 0x27]) vs)"

definition invalid_enum_value :: "platform \<Rightarrow> path_elem list \<Rightarrow> string list \<Rightarrow> jsval \<Rightarrow> ZodIssue" where
  "invalid_enum_value F pa options v =
     ZodIssue ''invalid_enum_value''
       (''Invalid enum value. Expected '' @ joinValues options @ '', received ''
          @ [CHR 0x27] @ js_toString F v @ [CHR 0x27])
       pa v JUndefined"

definition invalid_literal :: "path_elem list \<Rightarrow> string \<Rightarrow> jsval \<Rightarrow> ZodIssue" where
  "invalid_literal pa lit v =
     ZodIssue ''invalid_literal''
       (''Invalid literal value, expected '' @ JSON_quote lit)
       pa v (JStr lit)"

fun string_check_issues :: "platform \<Rightarrow> path_elem list \<Rightarrow> string \<Rightarrow> string_check \<Rightarrow> ZodIssue list" where
  "string_check_issues F pa s (Min n) =
     (if length s < n
      then [ZodIssue ''too_small''
              (''String must contain at least '' @ string_of_nat n @ '' character(s)'')
              pa JUndefined JUndefined]
      else [])"
| "string_check_issues F pa s Uuid =
     (if \<not> uuid_test F s
      then [ZodIssue ''invalid_string'' ''Invalid uuid'' pa JUndefined JUndefined]
      else [])"
| "string_check_issues F pa s Datetime =
     (if \<not> datetime_test F s
      then [ZodIssue ''invalid_string'' ''Invalid datetime'' pa JUndefined JUndefined]
      else [])"

text \<open>
  A number check compares as JavaScript does: \<^verbatim>\<open>Infinity\<close> is above and \<^verbatim>\<open>-Infinity\<close> below
  every bound (\<^verbatim>\<open>NaN\<close> never reaches a check: its parsed type is \<^verbatim>\<open>nan\<close>).
\<close>

definition num_less :: "jsnum \<Rightarrow> rat \<Rightarrow> bool" where
  "num_less n b = (case n of NaN \<Rightarrow> False | PosInf \<Rightarrow> False | NegInf \<Rightarrow> True | Fin q \<Rightarrow> q < b)"

definition num_greater :: "jsnum \<Rightarrow> rat \<Rightarrow> bool" where
  "num_greater n b = (case n of NaN \<Rightarrow> False | PosInf \<Rightarrow> True | NegInf \<Rightarrow> False | Fin q \<Rightarrow> q > b)"

fun number_check_issues :: "path_elem list \<Rightarrow> jsnum \<Rightarrow> number_check \<Rightarrow> ZodIssue list" where
  "number_check_issues pa n (NMin b) =
     (if num_less n (of_int b)
      then [ZodIssue ''too_small''
              (''Number must be greater than or equal to '' @ string_of_int b)
              pa JUndefined JUndefined]
      else [])"
| "number_check_issues pa n (NMax b) =
     (if num_greater n (of_int b)
      then [ZodIssue ''too_big''
              (''Number must be less than or equal to '' @ string_of_int b)
              pa JUndefined JUndefined]
      else [])"

text \<open>\<^verbatim>\<open>ParseStatus.mergeArray\<close>: the first aborted element aborts the array.\<close>

fun mergeArray :: "bool \<Rightarrow> jsval list \<Rightarrow> parse_return list \<Rightarrow> parse_return" where
  "mergeArray dirty acc [] = (if dirty then DIRTY (JArr acc) else OK (JArr acc))"
| "mergeArray dirty acc (INVALID # rs) = INVALID"
| "mergeArray dirty acc (DIRTY v # rs) = mergeArray True (acc @ [v]) rs"
| "mergeArray dirty acc (OK v # rs) = mergeArray dirty (acc @ [v]) rs"

text \<open>
  \<^verbatim>\<open>ParseStatus.mergeObjectSync\<close> on the pairs (key, parsed value, \<^verbatim>\<open>alwaysSet\<close>): a key is
  written to the result when its value is not \<^verbatim>\<open>undefined\<close> or the key was in the input;
  the key \<^verbatim>\<open>__proto__\<close> is never written.
\<close>

fun mergeObjectSync ::
  "bool \<Rightarrow> (string \<times> jsval) list \<Rightarrow> (string \<times> parse_return \<times> bool) list \<Rightarrow> parse_return" where
  "mergeObjectSync dirty acc [] = (if dirty then DIRTY (JObj acc) else OK (JObj acc))"
| "mergeObjectSync dirty acc ((k, INVALID, always) # ps) = INVALID"
| "mergeObjectSync dirty acc ((k, DIRTY v, always) # ps) =
     mergeObjectSync True
       (if k \<noteq> ''__proto__'' \<and> (v \<noteq> JUndefined \<or> always) then acc @ [(k, v)] else acc) ps"
| "mergeObjectSync dirty acc ((k, OK v, always) # ps) =
     mergeObjectSync dirty
       (if k \<noteq> ''__proto__'' \<and> (v \<noteq> JUndefined \<or> always) then acc @ [(k, v)] else acc) ps"

lemma size_tuple_item [termination_simp]:
  "(i, s) \<in> set (enumerate n items) \<Longrightarrow> size s < Suc (size_list size items)"
  by (auto simp: in_set_enumerate_eq less_Suc_eq_le intro!: size_list_estimation')

fun zparse :: "platform \<Rightarrow> zschema \<Rightarrow> path_elem list \<Rightarrow> jsval \<Rightarrow> parse_return \<times> ZodIssue list" where
  "zparse F (ZString checks) pa v =
     (case v of
        JStr s \<Rightarrow>
          (let issues = concat (map (string_check_issues F pa s) checks)
           in (if issues = [] then OK v else DIRTY v, issues))
      | _ \<Rightarrow> (INVALID, [invalid_type pa ''string'' v]))"
| "zparse F (ZNumber checks) pa v =
     (case v of
        JNum n \<Rightarrow>
          (if n = NaN then (INVALID, [invalid_type pa ''number'' v])
           else
             (let issues = concat (map (number_check_issues pa n) checks)
              in (if issues = [] then OK v else DIRTY v, issues)))
      | _ \<Rightarrow> (INVALID, [invalid_type pa ''number'' v]))"
| "zparse F ZUnknown pa v = (OK v, [])"
| "zparse F (ZLiteral lit) pa v =
     (if v = JStr lit then (OK v, []) else (INVALID, [invalid_literal pa lit v]))"
| "zparse F (ZEnum values) pa v =
     (case v of
        JStr s \<Rightarrow>
          (if s \<in> set values then (OK v, [])
           else (INVALID, [invalid_enum_value F pa values v]))
      | _ \<Rightarrow> (INVALID, [invalid_type pa (joinValues values) v]))"
| "zparse F (ZNativeEnum values) pa v =
     (case v of
        JStr s \<Rightarrow>
          (if s \<in> set values then (OK v, [])
           else (INVALID, [invalid_enum_value F pa values v]))
      | JNum n \<Rightarrow>
          (if n = NaN then (INVALID, [invalid_type pa (joinValues values) v])
           else (INVALID, [invalid_enum_value F pa values v]))
      | _ \<Rightarrow> (INVALID, [invalid_type pa (joinValues values) v]))"
| "zparse F (ZArray elem) pa v =
     (case v of
        JArr xs \<Rightarrow>
          (let results = map (\<lambda>(i, x). zparse F elem (pa @ [Index i]) x) (enumerate 0 xs)
           in (mergeArray False [] (map fst results), concat (map snd results)))
      | _ \<Rightarrow> (INVALID, [invalid_type pa ''array'' v]))"
| "zparse F (ZTuple items) pa v =
     (case v of
        JArr xs \<Rightarrow>
          (if length xs < length items
           then (INVALID,
                 [ZodIssue ''too_small''
                    (''Array must contain at least '' @ string_of_nat (length items) @ '' element(s)'')
                    pa JUndefined JUndefined])
           else
             (let too_big = (length xs > length items);
                  results = map (\<lambda>(i, s). zparse F s (pa @ [Index i]) (xs ! i))
                              (enumerate 0 items)
              in (mergeArray too_big [] (map fst results),
                  (if too_big
                   then [ZodIssue ''too_big''
                           (''Array must contain at most '' @ string_of_nat (length items)
                              @ '' element(s)'')
                           pa JUndefined JUndefined]
                   else [])
                  @ concat (map snd results))))
      | _ \<Rightarrow> (INVALID, [invalid_type pa ''array'' v]))"
| "zparse F (ZRecord valueType) pa v =
     (case v of
        JObj kvs \<Rightarrow>
          (let results = map (\<lambda>(k, x). (k, zparse F valueType (pa @ [Key k]) x)) kvs
           in (mergeObjectSync False [] (map (\<lambda>(k, r). (k, fst r, True)) results),
               concat (map (\<lambda>(k, r). snd r) results)))
      | _ \<Rightarrow> (INVALID, [invalid_type pa ''object'' v]))"
| "zparse F (ZObject shape) pa v =
     (case v of
        JObj kvs \<Rightarrow>
          (let results = map (\<lambda>(k, s). (k, zparse F s (pa @ [Key k]) (field kvs k))) shape
           in (mergeObjectSync False [] (map (\<lambda>(k, r). (k, fst r, has_key kvs k)) results),
               concat (map (\<lambda>(k, r). snd r) results)))
      | _ \<Rightarrow> (INVALID, [invalid_type pa ''object'' v]))"
| "zparse F (ZOptional inner) pa v =
     (if v = JUndefined then (OK JUndefined, []) else zparse F inner pa v)"
| "zparse F (ZNullable inner) pa v =
     (if v = JNull then (OK JNull, []) else zparse F inner pa v)"

text \<open>
  \<^verbatim>\<open>schema.parse(data)\<close> returns the value when the status is valid and throws otherwise:
  a \<^verbatim>\<open>ZodError\<close> with the issues, or a plain \<^verbatim>\<open>Error\<close> when there is none.
\<close>

datatype js_exception = ZodError "ZodIssue list" | Error string | TypeError string

definition parse :: "platform \<Rightarrow> zschema \<Rightarrow> jsval \<Rightarrow> js_exception + jsval" where
  "parse F schema v =
     (case zparse F schema [] v of
        (OK x, issues) \<Rightarrow> Inr x
      | (_, issues) \<Rightarrow>
          (if issues = [] then Inl (Error ''Validation failed but no issues detected.'')
           else Inl (ZodError issues)))"

text \<open>
  \<^verbatim>\<open>base.extend(augmentation)\<close>: the shape \<^verbatim>\<open>{...base.shape, ...augmentation}\<close>; a key of
  the base keeps its place and takes the new schema, a new key goes to the end.
\<close>

definition extend_shape :: "(string \<times> zschema) list \<Rightarrow> (string \<times> zschema) list \<Rightarrow> (string \<times> zschema) list" where
  "extend_shape base augmentation =
     map (\<lambda>(k, s). (k, case map_of augmentation k of Some s' \<Rightarrow> s' | None \<Rightarrow> s)) base
     @ filter (\<lambda>(k, s). k \<notin> set (map fst base)) augmentation"

section \<open>The schemas of \<^verbatim>\<open>types/index.ts\<close>\<close>

definition MemoryEntryType :: "string list" where
  "MemoryEntryType =
     [''TaskState'', ''CommitDelta'', ''ReasoningEntry'', ''SummaryCheckpoint'', ''BranchMeta'']"

definition MemoryEntryStatus :: "string list" where
  "MemoryEntryStatus = [''draft'', ''verified'', ''archived'']"

definition MemoryEntryShape :: "(string \<times> zschema) list" where
  "MemoryEntryShape =
     [(''id'', ZString [Uuid]),
      (''type'', ZNativeEnum MemoryEntryType),
      (''project'', ZString [Min 1]),
      (''taskId'', ZNullable (ZString [])),
      (''branch'', ZString [Min 1]),
      (''timestamp'', ZString [Datetime]),
      (''status'', ZNativeEnum MemoryEntryStatus),
      (''content'', ZRecord ZUnknown),
      (''metadata'', ZOptional (ZRecord ZUnknown)),
      (''embedding'', ZOptional (ZArray (ZNumber []))),
      (''tags'', ZOptional (ZArray (ZString [])))]"

definition MemoryEntrySchema :: zschema where
  "MemoryEntrySchema = ZObject MemoryEntryShape"

definition TaskStateContentSchema :: zschema where
  "TaskStateContentSchema = ZObject
     [(''description'', ZString []),
      (''goals'', ZArray (ZString [])),
      (''progress'', ZNumber [NMin 0, NMax 100]),
      (''context'', ZRecord ZUnknown),
      (''activeFiles'', ZArray (ZString [])),
      (''workingDirectory'', ZString []),
      (''dependencies'', ZOptional (ZArray (ZString []))),
      (''blockers'', ZOptional (ZArray (ZString [])))]"

definition TaskStateSchema :: zschema where
  "TaskStateSchema = ZObject (extend_shape MemoryEntryShape
     [(''type'', ZLiteral ''TaskState''), (''content'', TaskStateContentSchema)])"

definition CommitDeltaContentSchema :: zschema where
  "CommitDeltaContentSchema = ZObject
     [(''commitHash'', ZString []),
      (''message'', ZString []),
      (''author'', ZObject [(''name'', ZString []), (''email'', ZString [])]),
      (''files'', ZArray (ZObject
         [(''path'', ZString []),
          (''action'', ZEnum [''added'', ''modified'', ''deleted'', ''renamed'']),
          (''linesAdded'', ZOptional (ZNumber [])),
          (''linesDeleted'', ZOptional (ZNumber []))])),
      (''semantic'', ZOptional (ZObject
         [(''functions'', ZOptional (ZArray (ZString []))),
          (''classes'', ZOptional (ZArray (ZString []))),
          (''imports'', ZOptional (ZArray (ZString []))),
          (''configs'', ZOptional (ZArray (ZString [])))]))]"

definition CommitDeltaSchema :: zschema where
  "CommitDeltaSchema = ZObject (extend_shape MemoryEntryShape
     [(''type'', ZLiteral ''CommitDelta''), (''content'', CommitDeltaContentSchema)])"

definition ReasoningEntryContentSchema :: zschema where
  "ReasoningEntryContentSchema = ZObject
     [(''threadId'', ZString []),
      (''model'', ZString []),
      (''query'', ZString []),
      (''response'', ZString []),
      (''reasoning'', ZOptional (ZString [])),
      (''codeRefs'', ZOptional (ZArray (ZObject
         [(''file'', ZString []),
          (''lines'', ZOptional (ZTuple [ZNumber [], ZNumber []])),
          (''content'', ZOptional (ZString []))]))),
      (''actions'', ZOptional (ZArray (ZString [])))]"

definition ReasoningEntrySchema :: zschema where
  "ReasoningEntrySchema = ZObject (extend_shape MemoryEntryShape
     [(''type'', ZLiteral ''ReasoningEntry''), (''content'', ReasoningEntryContentSchema)])"

definition SummaryCheckpointContentSchema :: zschema where
  "SummaryCheckpointContentSchema = ZObject
     [(''period'', ZObject [(''start'', ZString [Datetime]), (''end'', ZString [Datetime])]),
      (''summary'', ZString []),
      (''achievements'', ZArray (ZString [])),
      (''decisions'', ZArray (ZString [])),
      (''technicalDebt'', ZOptional (ZArray (ZString []))),
      (''metrics'', ZOptional (ZRecord (ZNumber []))),
      (''compressedEntries'', ZOptional (ZArray (ZString [])))]"

definition SummaryCheckpointSchema :: zschema where
  "SummaryCheckpointSchema = ZObject (extend_shape MemoryEntryShape
     [(''type'', ZLiteral ''SummaryCheckpoint''), (''content'', SummaryCheckpointContentSchema)])"

definition BranchMetaContentSchema :: zschema where
  "BranchMetaContentSchema = ZObject
     [(''purpose'', ZString []),
      (''parentBranch'', ZString []),
      (''childBranches'', ZOptional (ZArray (ZString []))),
      (''createdAt'', ZString [Datetime]),
      (''mergeTarget'', ZOptional (ZString [Datetime])),
      (''featureFlags'', ZOptional (ZArray (ZString []))),
      (''environment'', ZOptional (ZEnum [''development'', ''staging'', ''production''])),
      (''relatedBranches'', ZOptional (ZArray (ZString [])))]"

definition BranchMetaSchema :: zschema where
  "BranchMetaSchema = ZObject (extend_shape MemoryEntryShape
     [(''type'', ZLiteral ''BranchMeta''), (''content'', BranchMetaContentSchema)])"

section \<open>The validators of \<^verbatim>\<open>validation/index.ts\<close>\<close>

record ValidationError =
  code :: string
  message :: string
  path :: "string list option"
  "context" :: "(string \<times> jsval) list option"

record 'a ValidationResult =
  success :: bool
  data :: "'a option"
  errors :: "ValidationError list option"

definition succeed :: "'a \<Rightarrow> 'a ValidationResult" where
  "succeed d = \<lparr>success = True, data = Some d, errors = None\<rparr>"

definition fail :: "ValidationError list \<Rightarrow> 'a ValidationResult" where
  "fail es = \<lparr>success = False, data = None, errors = Some es\<rparr>"

definition simple_error :: "string \<Rightarrow> string \<Rightarrow> ValidationError" where
  "simple_error c m = \<lparr>code = c, message = m, path = None, context = None\<rparr>"

subsection \<open>MemoryEntryValidator\<close>

definition path_string :: "path_elem \<Rightarrow> string" where
  "path_string e = (case e of Key k \<Rightarrow> k | Index i \<Rightarrow> string_of_nat i)"

text \<open>
  \<^verbatim>\<open>parseZodError\<close> reads \<^verbatim>\<open>error.errors\<close>; on a thrown value that is not a
  \<^verbatim>\<open>ZodError\<close> that property is \<^verbatim>\<open>undefined\<close> and \<^verbatim>\<open>.map\<close> throws.
\<close>

definition parseZodError :: "js_exception \<Rightarrow> js_exception + ValidationError list" where
  "parseZodError error =
     (case error of
        ZodError issues \<Rightarrow>
          Inr (map (\<lambda>err.
                 \<lparr>code = issue_code err,
                  message = issue_message err,
                  path = Some (map path_string (issue_path err)),
                  context = Some [(''received'', issue_received err),
                                  (''expected'', issue_expected err)]\<rparr>) issues)
      | _ \<Rightarrow> Inl (TypeError ''Cannot read properties of undefined (reading map)''))"

text \<open>The \<^verbatim>\<open>try { ... parse ... } catch (error) { ... parseZodError(error) ... }\<close> of both methods.\<close>

definition parse_or_errors ::
  "platform \<Rightarrow> zschema \<Rightarrow> jsval \<Rightarrow> js_exception + jsval ValidationResult" where
  "parse_or_errors F schema entry =
     (case parse F schema entry of
        Inr validated \<Rightarrow> Inr (succeed validated)
      | Inl error \<Rightarrow>
          (case parseZodError error of
             Inl e \<Rightarrow> Inl e
           | Inr es \<Rightarrow> Inr (fail es)))"

definition validate :: "platform \<Rightarrow> jsval \<Rightarrow> js_exception + jsval ValidationResult" where
  "validate F entry = parse_or_errors F MemoryEntrySchema entry"

text \<open>
  \<^verbatim>\<open>entry.type\<close> throws a \<^verbatim>\<open>TypeError\<close> on \<^verbatim>\<open>null\<close> and \<^verbatim>\<open>undefined\<close>; inside the
  \<^verbatim>\<open>try\<close> it is caught and handed to \<^verbatim>\<open>parseZodError\<close>, which throws in turn.
\<close>

definition validateByType :: "platform \<Rightarrow> jsval \<Rightarrow> js_exception + jsval ValidationResult" where
  "validateByType F entry =
     (if entry = JNull \<or> entry = JUndefined
      then (case parseZodError (TypeError ''Cannot read properties (reading type)'') of
              Inl e \<Rightarrow> Inl e
            | Inr es \<Rightarrow> Inr (fail es))
      else
        (let t = js_get entry ''type'' in
         if t = JStr ''TaskState'' then parse_or_errors F TaskStateSchema entry
         else if t = JStr ''CommitDelta'' then parse_or_errors F CommitDeltaSchema entry
         else if t = JStr ''ReasoningEntry'' then parse_or_errors F ReasoningEntrySchema entry
         else if t = JStr ''SummaryCheckpoint'' then parse_or_errors F SummaryCheckpointSchema entry
         else if t = JStr ''BranchMeta'' then parse_or_errors F BranchMetaSchema entry
         else Inr (fail
           [\<lparr>code = ''INVALID_TYPE'',
             message = ''Unknown memory entry type: '' @ js_toString F t,
             path = Some [''type''],
             context = None\<rparr>])))"

text \<open>\<^verbatim>\<open>!result.data\<close>: the property is absent or its value is falsy.\<close>

definition no_data :: "jsval ValidationResult \<Rightarrow> bool" where
  "no_data r = (case data r of None \<Rightarrow> True | Some d \<Rightarrow> \<not> truthy d)"

definition validateTyped :: "platform \<Rightarrow> jsval \<Rightarrow> js_exception + jsval ValidationResult" where
  "validateTyped F entry =
     (case validate F entry of
        Inl e \<Rightarrow> Inl e
      | Inr baseResult \<Rightarrow>
          (if \<not> success baseResult \<or> no_data baseResult then Inr baseResult
           else (case data baseResult of
                   None \<Rightarrow> Inr baseResult
                 | Some d \<Rightarrow> validateByType F d)))"

subsection \<open>ProjectValidator\<close>

text \<open>\<^verbatim>\<open>/^[a-zA-Z0-9_-]+$/.test(s)\<close>: one character or more, each of the class.\<close>

definition project_name_char :: "char \<Rightarrow> bool" where
  "project_name_char c =
     (c \<in> set ''abcdefghijklmnopqrstuvwxyzABCDEFGHIJKLMNOPQRSTUVWXYZ0123456789_-'')"

definition PROJECT_NAME_REGEX_test :: "string \<Rightarrow> bool" where
  "PROJECT_NAME_REGEX_test s = (s \<noteq> [] \<and> list_all project_name_char s)"

definition ProjectValidator_validate :: "string \<Rightarrow> string ValidationResult" where
  "ProjectValidator_validate projectName =
     (let errors0 = [];
          errors1 = errors0 @
            (if length projectName < 1
             then [simple_error ''TOO_SHORT''
                     (''Project name must be at least '' @ string_of_nat 1 @ '' character(s)'')]
             else []);
          errors2 = errors1 @
            (if length projectName > 100
             then [simple_error ''TOO_LONG''
                     (''Project name must be at most '' @ string_of_nat 100 @ '' characters'')]
             else []);
          errors3 = errors2 @
            (if \<not> PROJECT_NAME_REGEX_test projectName
             then [simple_error ''INVALID_FORMAT''
                     ''Project name can only contain letters, numbers, underscores, and hyphens'']
             else [])
      in if length errors3 > 0 then fail errors3 else succeed projectName)"

subsection \<open>BranchValidator\<close>

definition branch_name_char :: "char \<Rightarrow> bool" where
  "branch_name_char c =
     (c \<in> set ''abcdefghijklmnopqrstuvwxyzABCDEFGHIJKLMNOPQRSTUVWXYZ0123456789/_-'')"

definition BRANCH_NAME_REGEX_test :: "string \<Rightarrow> bool" where
  "BRANCH_NAME_REGEX_test s = (s \<noteq> [] \<and> list_all branch_name_char s)"

definition startsWith :: "string \<Rightarrow> string \<Rightarrow> bool" where
  "startsWith s pre = (take (length pre) s = pre)"

definition endsWith :: "string \<Rightarrow> string \<Rightarrow> bool" where
  "endsWith s suf = (length suf \<le> length s \<and> drop (length s - length suf) s = suf)"

fun str_includes :: "string \<Rightarrow> string \<Rightarrow> bool" where
  "str_includes [] sub = (sub = [])"
| "str_includes (c # cs) sub = (startsWith (c # cs) sub \<or> str_includes cs sub)"

definition slash_error :: ValidationError where
  "slash_error = simple_error ''INVALID_FORMAT'' ''Branch name cannot start or end with a slash''"

definition consecutive_slashes_error :: ValidationError where
  "consecutive_slashes_error =
     simple_error ''INVALID_FORMAT'' ''Branch name cannot contain consecutive slashes''"

definition BranchValidator_validate :: "string \<Rightarrow> string ValidationResult" where
  "BranchValidator_validate branchName =
     (let errors0 = [];
          errors1 = errors0 @
            (if length branchName < 1
             then [simple_error ''TOO_SHORT''
                     (''Branch name must be at least '' @ string_of_nat 1 @ '' character(s)'')]
             else []);
          errors2 = errors1 @
            (if length branchName > 250
             then [simple_error ''TOO_LONG''
                     (''Branch name must be at most '' @ string_of_nat 250 @ '' characters'')]
             else []);
          errors3 = errors2 @
            (if \<not> BRANCH_NAME_REGEX_test branchName
             then [simple_error ''INVALID_FORMAT'' ''Branch name contains invalid characters'']
             else []);
          errors4 = errors3 @
            (if startsWith branchName ''/'' \<or> endsWith branchName ''/''
             then [slash_error]
             else []);
          errors5 = errors4 @
            (if str_includes branchName ''//''
             then [consecutive_slashes_error]
             else [])
      in if length errors5 > 0 then fail errors5 else succeed branchName)"

subsection \<open>ContentSizeValidator\<close>

text \<open>
  \<^verbatim>\<open>JSON.stringify\<close>: \<^verbatim>\<open>undefined\<close> has no text (the result is \<^verbatim>\<open>undefined\<close>), is
  \<^verbatim>\<open>null\<close> inside an array and is left out of an object; a non-finite number is \<^verbatim>\<open>null\<close>.
  On a \<^verbatim>\<open>BigInt\<close>, at any depth, it throws a \<^verbatim>\<open>TypeError\<close>. The elements and properties are
  serialized in order, and the first exception ends the serialization (\<open>first_exception\<close>).
\<close>

definition bigint_error :: js_exception where
  "bigint_error = TypeError ''Do not know how to serialize a BigInt''"

fun first_exception :: "('e + 'a) list \<Rightarrow> 'e + 'a list" where
  "first_exception [] = Inr []"
| "first_exception (Inl e # rs) = Inl e"
| "first_exception (Inr x # rs) =
     (case first_exception rs of Inl e \<Rightarrow> Inl e | Inr xs \<Rightarrow> Inr (x # xs))"

fun JSON_stringify :: "platform \<Rightarrow> jsval \<Rightarrow> js_exception + string option" where
  "JSON_stringify F JUndefined = Inr None"
| "JSON_stringify F JNull = Inr (Some ''null'')"
| "JSON_stringify F (JBool b) = Inr (Some (if b then ''true'' else ''false''))"
| "JSON_stringify F (JNum (Fin q)) = Inr (Some (number_toString F q))"
| "JSON_stringify F (JNum NaN) = Inr (Some ''null'')"
| "JSON_stringify F (JNum PosInf) = Inr (Some ''null'')"
| "JSON_stringify F (JNum NegInf) = Inr (Some ''null'')"
| "JSON_stringify F (JStr s) = Inr (Some (JSON_quote s))"
| "JSON_stringify F (JBigInt i) = Inl bigint_error"
| "JSON_stringify F (JArr xs) =
     (case first_exception (map (JSON_stringify F) xs) of
        Inl e \<Rightarrow> Inl e
      | Inr ts \<Rightarrow>
          Inr (Some (''['' @ join '',''
                       (map (\<lambda>t. case t of None \<Rightarrow> ''null'' | Some s \<Rightarrow> s) ts)
                     @ '']'')))"
| "JSON_stringify F (JObj kvs) =
     (case first_exception
             (map (\<lambda>(k, x). case JSON_stringify F x of
                               Inl e \<Rightarrow> Inl e
                             | Inr t \<Rightarrow> Inr (k, t)) kvs) of
        Inl e \<Rightarrow> Inl e
      | Inr ps \<Rightarrow>
          Inr (Some (''{'' @ join '',''
                       (concat (map (\<lambda>(k, t). case t of
                                                None \<Rightarrow> []
                                              | Some s \<Rightarrow> [JSON_quote k @ '':'' @ s]) ps))
                     @ ''}'')))"

text \<open>
  \<^verbatim>\<open>new TextEncoder().encode(text).length\<close>: a code unit below 128 is one byte of UTF-8, one
  from 128 to 255 is two; \<^verbatim>\<open>encode(undefined)\<close> encodes the empty string.
\<close>

definition utf8_length :: "string \<Rightarrow> nat" where
  "utf8_length s = sum_list (map (\<lambda>c. if (of_char c :: nat) < 128 then 1 else 2) s)"

text \<open>
  The first two statements of \<^verbatim>\<open>ContentSizeValidator.validate\<close>, which has no \<^verbatim>\<open>try\<close>: the
  exception of \<^verbatim>\<open>JSON.stringify\<close> leaves the method.
\<close>

definition sizeInBytes :: "platform \<Rightarrow> jsval \<Rightarrow> js_exception + nat" where
  "sizeInBytes F content_v =
     (case JSON_stringify F content_v of
        Inl e \<Rightarrow> Inl e
      | Inr serialized \<Rightarrow>
          Inr (utf8_length (case serialized of None \<Rightarrow> [] | Some s \<Rightarrow> s)))"

definition MAX_CONTENT_SIZE :: nat where
  "MAX_CONTENT_SIZE = 1024 * 1024"

definition MAX_STRING_LENGTH :: nat where
  "MAX_STRING_LENGTH = 100000"

definition ContentSizeValidator_validate ::
  "platform \<Rightarrow> jsval \<Rightarrow> js_exception + jsval ValidationResult" where
  "ContentSizeValidator_validate F content_v =
     (case sizeInBytes F content_v of
        Inl e \<Rightarrow> Inl e
      | Inr bytes \<Rightarrow>
          (let errors0 = [];
               errors1 = errors0 @
                 (if bytes > MAX_CONTENT_SIZE
                  then [simple_error ''CONTENT_TOO_LARGE''
                          (''Content size ('' @ string_of_nat bytes
                             @ '' bytes) exceeds maximum allowed size (''
                             @ string_of_nat MAX_CONTENT_SIZE @ '' bytes)'')]
                  else []);
               errors2 = errors1 @
                 (case content_v of
                    JStr s \<Rightarrow>
                      (if length s > MAX_STRING_LENGTH
                       then [simple_error ''STRING_TOO_LONG''
                               (''String length ('' @ string_of_nat (length s)
                                  @ '') exceeds maximum allowed length (''
                                  @ string_of_nat MAX_STRING_LENGTH @ '')'')]
                       else [])
                  | _ \<Rightarrow> [])
           in Inr (if length errors2 > 0 then fail errors2 else succeed content_v)))"

subsection \<open>EmbeddingValidator\<close>

definition SUPPORTED_DIMENSIONS :: "nat list" where
  "SUPPORTED_DIMENSIONS = [384, 512, 768, 1024, 1536]"

text \<open>\<^verbatim>\<open>typeof value !== 'number' || isNaN(value) || !isFinite(value)\<close>\<close>

definition invalid_value :: "jsval \<Rightarrow> bool" where
  "invalid_value v = (case v of JNum (Fin q) \<Rightarrow> False | _ \<Rightarrow> True)"

definition value_error :: "nat \<Rightarrow> ValidationError" where
  "value_error i =
     \<lparr>code = ''INVALID_VALUE'',
      message = ''Embedding value at index '' @ string_of_nat i @ '' is not a valid number'',
      path = Some [string_of_nat i],
      context = None\<rparr>"

text \<open>The \<^verbatim>\<open>for\<close> loop from index \<open>i\<close> over the elements still to visit.\<close>

fun value_errors :: "nat \<Rightarrow> jsval list \<Rightarrow> ValidationError list" where
  "value_errors i [] = []"
| "value_errors i (v # vs) =
     (if invalid_value v then [value_error i] else []) @ value_errors (Suc i) vs"

definition empty_error :: ValidationError where
  "empty_error = simple_error ''EMPTY_EMBEDDING'' ''Embedding cannot be empty''"

definition dimension_error :: "nat \<Rightarrow> ValidationError" where
  "dimension_error n =
     simple_error ''INVALID_DIMENSION''
       (''Embedding dimension ('' @ string_of_nat n
          @ '') is not supported. Supported dimensions: ''
          @ join '', '' (map string_of_nat SUPPORTED_DIMENSIONS))"

definition EmbeddingValidator_validate :: "jsval \<Rightarrow> jsval ValidationResult" where
  "EmbeddingValidator_validate embedding =
     (case embedding of
        JArr xs \<Rightarrow>
          (let errors0 = [];
               errors1 = errors0 @ (if length xs = 0 then [empty_error] else []);
               errors2 = errors1 @
                 (if length xs \<notin> set SUPPORTED_DIMENSIONS
                  then [dimension_error (length xs)]
                  else []);
               errors3 = errors2 @ value_errors 0 xs
           in if length errors3 > 0 then fail errors3 else succeed embedding)
      | _ \<Rightarrow> fail [simple_error ''INVALID_TYPE'' ''Embedding must be an array of numbers''])"

subsection \<open>UCPValidator\<close>

text \<open>\<^verbatim>\<open>errors.push(...(result.errors || []))\<close> when \<^verbatim>\<open>!result.success\<close>.\<close>

definition pushed :: "'a ValidationResult \<Rightarrow> ValidationError list" where
  "pushed r = (if \<not> success r then (case errors r of Some es \<Rightarrow> es | None \<Rightarrow> []) else [])"

text \<open>
  \<^verbatim>\<open>validatedEntry.project\<close> and \<^verbatim>\<open>validatedEntry.branch\<close> have the static type
  \<^verbatim>\<open>string\<close>; the two validators read \<^verbatim>\<open>.length\<close> of it. A value of another kind there is
  outside the validators' parameter type and is a \<^verbatim>\<open>TypeError\<close> in the model. The method
  has no \<^verbatim>\<open>try\<close>: an exception of \<^verbatim>\<open>ContentSizeValidator.validate\<close> leaves it.
\<close>

definition as_string :: "jsval \<Rightarrow> js_exception + string" where
  "as_string v = (case v of JStr s \<Rightarrow> Inr s | _ \<Rightarrow> Inl (TypeError ''not a string''))"

definition validateMemoryEntry :: "platform \<Rightarrow> jsval \<Rightarrow> js_exception + jsval ValidationResult" where
  "validateMemoryEntry F entry =
     (case validateTyped F entry of
        Inl e \<Rightarrow> Inl e
      | Inr structureResult \<Rightarrow>
          (if \<not> success structureResult \<or> no_data structureResult then Inr structureResult
           else
             (case data structureResult of
                None \<Rightarrow> Inr structureResult
              | Some validatedEntry \<Rightarrow>
                  (case as_string (js_get validatedEntry ''project'') of
                     Inl e \<Rightarrow> Inl e
                   | Inr project \<Rightarrow>
                  (case as_string (js_get validatedEntry ''branch'') of
                     Inl e \<Rightarrow> Inl e
                   | Inr branch \<Rightarrow>
                     (let errors0 = [];
                          errors1 = errors0 @ pushed (ProjectValidator_validate project);
                          errors2 = errors1 @ pushed (BranchValidator_validate branch)
                      in (case ContentSizeValidator_validate F (js_get validatedEntry ''content'') of
                            Inl e \<Rightarrow> Inl e
                          | Inr contentResult \<Rightarrow>
                     (let errors3 = errors2 @ pushed contentResult;
                          errors4 = errors3 @
                            (if truthy (js_get validatedEntry ''embedding'')
                             then pushed (EmbeddingValidator_validate (js_get validatedEntry ''embedding''))
                             else [])
                      in if length errors4 > 0 then Inr (fail errors4)
                         else Inr (succeed validatedEntry)))))))))"

section \<open>A platform instance and concrete entries\<close>

text \<open>
  An instance of the platform parameters, to run the model on concrete entries: the
  8-4-4-4-12 hexadecimal form of a UUID, the UTC form \<^verbatim>\<open>YYYY-MM-DDThh:mm:ssZ\<close> of a
  timestamp, and the decimal text of an integral number (the text of a number that is not
  integral is a stand-in here: the concrete entries hold integral numbers only).
\<close>

definition hex_char :: "char \<Rightarrow> bool" where
  "hex_char c = (c \<in> set ''0123456789abcdefABCDEF'')"

definition digit :: "char \<Rightarrow> bool" where
  "digit c = (c \<in> set ''0123456789'')"

definition sample_uuid_test :: "string \<Rightarrow> bool" where
  "sample_uuid_test s =
     (length s = 36
      \<and> list_all hex_char (take 8 s) \<and> take 1 (drop 8 s) = ''-''
      \<and> list_all hex_char (take 4 (drop 9 s)) \<and> take 1 (drop 13 s) = ''-''
      \<and> list_all hex_char (take 4 (drop 14 s)) \<and> take 1 (drop 18 s) = ''-''
      \<and> list_all hex_char (take 4 (drop 19 s)) \<and> take 1 (drop 23 s) = ''-''
      \<and> list_all hex_char (drop 24 s))"

definition sample_datetime_test :: "string \<Rightarrow> bool" where
  "sample_datetime_test s =
     (length s = 20
      \<and> list_all digit (take 4 s) \<and> take 1 (drop 4 s) = ''-''
      \<and> list_all digit (take 2 (drop 5 s)) \<and> take 1 (drop 7 s) = ''-''
      \<and> list_all digit (take 2 (drop 8 s)) \<and> take 1 (drop 10 s) = ''T''
      \<and> list_all digit (take 2 (drop 11 s)) \<and> take 1 (drop 13 s) = '':''
      \<and> list_all digit (take 2 (drop 14 s)) \<and> take 1 (drop 16 s) = '':''
      \<and> list_all digit (take 2 (drop 17 s)) \<and> drop 19 s = ''Z'')"

definition sample_number_toString :: "rat \<Rightarrow> string" where
  "sample_number_toString q =
     (if q = of_int \<lfloor>q\<rfloor> then string_of_int \<lfloor>q\<rfloor>
      else string_of_int \<lfloor>q\<rfloor> @ ''.5'')"

definition sample_platform :: platform where
  "sample_platform =
     \<lparr>uuid_test = sample_uuid_test,
      datetime_test = sample_datetime_test,
      number_toString = sample_number_toString\<rparr>"

text \<open>The envelope fields shared by the concrete entries below.\<close>

definition envelope :: "string \<Rightarrow> string \<Rightarrow> string \<Rightarrow> jsval \<Rightarrow> (string \<times> jsval) list" where
  "envelope ty project branch content_v =
     [(''id'', JStr ''123e4567-e89b-12d3-a456-426614174000''),
      (''type'', JStr ty),
      (''project'', JStr project),
      (''taskId'', JNull),
      (''branch'', JStr branch),
      (''timestamp'', JStr ''2024-01-15T10:30:00Z''),
      (''status'', JStr ''draft''),
      (''content'', content_v)]"

definition task_content :: "rat \<Rightarrow> jsval" where
  "task_content progress =
     JObj [(''description'', JStr ''d''),
           (''goals'', JArr []),
           (''progress'', JNum (Fin progress)),
           (''context'', JObj []),
           (''activeFiles'', JArr []),
           (''workingDirectory'', JStr ''/'')]"

definition commit_content :: jsval where
  "commit_content =
     JObj [(''commitHash'', JStr ''abc123''),
           (''message'', JStr ''m''),
           (''author'', JObj [(''name'', JStr ''n''), (''email'', JStr ''e'')]),
           (''files'', JArr [])]"

section \<open>Properties of the schema library\<close>

text \<open>Auxiliary notions for the proofs: a valid status, the value a status carries, the pairs
  \<^verbatim>\<open>mergeObjectSync\<close> writes, and a schema whose object shapes have distinct keys, none of
  them \<^verbatim>\<open>__proto__\<close> (every shape written as an object literal is such).\<close>

definition is_OK :: "parse_return \<Rightarrow> bool" where
  "is_OK r = (case r of OK v \<Rightarrow> True | _ \<Rightarrow> False)"

definition ok_value :: "parse_return \<Rightarrow> jsval" where
  "ok_value r = (case r of OK v \<Rightarrow> v | DIRTY v \<Rightarrow> v | INVALID \<Rightarrow> JUndefined)"

definition kept :: "(string \<times> parse_return \<times> bool) list \<Rightarrow> (string \<times> jsval) list" where
  "kept ps = concat (map (\<lambda>(k, r, always).
       if k \<noteq> ''__proto__'' \<and> (ok_value r \<noteq> JUndefined \<or> always) then [(k, ok_value r)] else []) ps)"

lemma is_OK_simps [simp]: "is_OK (OK v)" "\<not> is_OK (DIRTY v)" "\<not> is_OK INVALID"
  by (simp_all add: is_OK_def)

lemma ok_value_simps [simp]: "ok_value (OK v) = v" "ok_value (DIRTY v) = v" "ok_value INVALID = JUndefined"
  by (simp_all add: ok_value_def)

lemma is_OK_conv: "is_OK r \<longleftrightarrow> r = OK (ok_value r)"
  by (cases r) simp_all

lemma mergeArray_OK_iff:
  "mergeArray d acc rs = OK y \<longleftrightarrow> \<not> d \<and> list_all is_OK rs \<and> y = JArr (acc @ map ok_value rs)"
  by (induction d acc rs rule: mergeArray.induct) auto

lemma kept_Cons:
  "kept ((k, r, a) # ps) =
     (if k \<noteq> ''__proto__'' \<and> (ok_value r \<noteq> JUndefined \<or> a) then [(k, ok_value r)] else []) @ kept ps"
  by (simp add: kept_def)

lemma kept_Nil [simp]: "kept [] = []"
  by (simp add: kept_def)

lemma mergeObjectSync_OK_iff:
  "mergeObjectSync d acc ps = OK y \<longleftrightarrow>
     \<not> d \<and> list_all (\<lambda>p. is_OK (fst (snd p))) ps \<and> y = JObj (acc @ kept ps)"
  by (induction d acc ps rule: mergeObjectSync.induct) (auto simp: kept_Cons)

lemma zparse_OK_no_issues:
  "is_OK (fst (zparse F s pa v)) \<Longrightarrow> snd (zparse F s pa v) = []"
proof (induction F s pa v rule: zparse.induct)
  case (1 F checks pa v)
  then show ?case by (auto split: jsval.splits if_splits simp: Let_def)
next
  case (2 F checks pa v)
  then show ?case by (auto split: jsval.splits if_splits simp: Let_def)
next
  case (7 F elem pa v)
  show ?case
  proof (cases v)
    case (JArr xs)
    with 7 show ?thesis
      by (auto simp: Let_def is_OK_conv[of "mergeArray _ _ _"] mergeArray_OK_iff list_all_iff)
  qed (use 7 in auto)
next
  case (8 F items pa v)
  show ?case
  proof (cases v)
    case (JArr xs)
    from "8.prems" JArr have nlt: "\<not> length xs < length items"
      by (auto split: if_splits)
    with "8.prems" JArr have
      "is_OK (mergeArray (length items < length xs) []
         (map (\<lambda>(i, s). fst (zparse F s (pa @ [Index i]) (xs ! i))) (enumerate 0 items)))"
      by (simp add: Let_def comp_def case_prod_unfold)
    then have ngt: "\<not> length items < length xs"
      and ok: "\<forall>p\<in>set (enumerate 0 items). is_OK (fst (zparse F (snd p) (pa @ [Index (fst p)]) (xs ! fst p)))"
      by (auto simp: is_OK_conv[of "mergeArray _ _ _"] mergeArray_OK_iff list_all_iff)
    have "snd (zparse F (snd p) (pa @ [Index (fst p)]) (xs ! fst p)) = []"
      if "p \<in> set (enumerate 0 items)" for p
      using "8.IH"[OF JArr nlt refl that prod.collapse] ok that by blast
    with nlt ngt JArr show ?thesis
      by (simp add: Let_def case_prod_unfold)
  qed (use "8.prems" in auto)
next
  case (9 F valueType pa v)
  show ?case
  proof (cases v)
    case (JObj kvs)
    with 9 show ?thesis
      by (auto simp: Let_def is_OK_conv[of "mergeObjectSync _ _ _"] mergeObjectSync_OK_iff list_all_iff split: if_splits)
  qed (use 9 in auto)
next
  case (10 F shape pa v)
  show ?case
  proof (cases v)
    case (JObj kvs)
    with 10 show ?thesis
      by (auto simp: Let_def is_OK_conv[of "mergeObjectSync _ _ _"] mergeObjectSync_OK_iff list_all_iff split: if_splits)
  qed (use 10 in auto)
qed (auto split: jsval.splits if_splits)

lemma mergeArray_not_OK:
  "\<not> is_OK (mergeArray d acc rs) \<Longrightarrow> d \<or> (\<exists>r\<in>set rs. \<not> is_OK r)"
  by (induction d acc rs rule: mergeArray.induct) (auto split: if_splits)

lemma mergeObjectSync_not_OK:
  "\<not> is_OK (mergeObjectSync d acc ps) \<Longrightarrow> d \<or> (\<exists>p\<in>set ps. \<not> is_OK (fst (snd p)))"
  by (induction d acc ps rule: mergeObjectSync.induct) (auto split: if_splits)

lemma zparse_failure_has_issues:
  "\<not> is_OK (fst (zparse F s pa v)) \<Longrightarrow> snd (zparse F s pa v) \<noteq> []"
proof (induction F s pa v rule: zparse.induct)
  case (1 F checks pa v)
  then show ?case by (auto split: jsval.splits if_splits simp: Let_def)
next
  case (2 F checks pa v)
  then show ?case by (auto split: jsval.splits if_splits simp: Let_def)
next
  case (7 F elem pa v)
  show ?case
  proof (cases v)
    case (JArr xs)
    with 7 show ?thesis
      by (fastforce simp: Let_def dest!: mergeArray_not_OK)
  qed (use 7 in auto)
next
  case (8 F items pa v)
  show ?case
  proof (cases v)
    case (JArr xs)
    show ?thesis
    proof (cases "length xs < length items \<or> length items < length xs")
      case True
      with JArr show ?thesis by (auto simp: Let_def)
    next
      case False
      then have nlt: "\<not> length xs < length items" by simp
      from False "8.prems" JArr have
        "\<not> is_OK (mergeArray False []
           (map (\<lambda>(i, s). fst (zparse F s (pa @ [Index i]) (xs ! i))) (enumerate 0 items)))"
        by (simp add: Let_def comp_def case_prod_unfold)
      then obtain p where p: "p \<in> set (enumerate 0 items)"
        and "\<not> is_OK (fst (zparse F (snd p) (pa @ [Index (fst p)]) (xs ! fst p)))"
        by (auto dest!: mergeArray_not_OK simp: case_prod_unfold)
      with "8.IH"[OF JArr nlt refl p prod.collapse]
      have "snd (zparse F (snd p) (pa @ [Index (fst p)]) (xs ! fst p)) \<noteq> []" by blast
      with p JArr False show ?thesis
        by (auto simp: Let_def case_prod_unfold)
    qed
  qed (use "8.prems" in auto)
next
  case (9 F valueType pa v)
  show ?case
  proof (cases v)
    case (JObj kvs)
    with 9 show ?thesis
      by (fastforce simp: Let_def dest!: mergeObjectSync_not_OK split: if_splits)
  qed (use 9 in auto)
next
  case (10 F shape pa v)
  show ?case
  proof (cases v)
    case (JObj kvs)
    with 10 show ?thesis
      by (fastforce simp: Let_def dest!: mergeObjectSync_not_OK split: if_splits)
  qed (use 10 in auto)
qed (auto split: jsval.splits if_splits)


fun wf_schema :: "zschema \<Rightarrow> bool" where
  "wf_schema (ZArray elem) = wf_schema elem"
| "wf_schema (ZTuple items) = list_all wf_schema items"
| "wf_schema (ZRecord valueType) = wf_schema valueType"
| "wf_schema (ZObject shape) =
     (distinct (map fst shape) \<and> ''__proto__'' \<notin> set (map fst shape)
      \<and> list_all (\<lambda>(k, s). wf_schema s) shape)"
| "wf_schema (ZOptional inner) = wf_schema inner"
| "wf_schema (ZNullable inner) = wf_schema inner"
| "wf_schema _ = True"

lemma string_check_issues_path:
  "string_check_issues F pa s c = [] \<longleftrightarrow> string_check_issues F pa' s c = []"
  by (cases c) auto

lemma number_check_issues_path:
  "number_check_issues pa n c = [] \<longleftrightarrow> number_check_issues pa' n c = []"
  by (cases c) auto

lemma map_of_kept_None:
  "k \<notin> set (map fst ps) \<Longrightarrow> map_of (kept ps) k = None"
  by (induction ps) (auto simp: kept_Cons)

lemma map_of_kept:
  "distinct (map fst ps) \<Longrightarrow> (k, r, a) \<in> set ps \<Longrightarrow> k \<noteq> ''__proto__'' \<Longrightarrow>
   map_of (kept ps) k = (if ok_value r \<noteq> JUndefined \<or> a then Some (ok_value r) else None)"
proof (induction ps)
  case Nil
  then show ?case by simp
next
  case (Cons p ps)
  obtain k' r' a' where p: "p = (k', r', a')" by (cases p) auto
  show ?case
  proof (cases "k' = k")
    case True
    with Cons.prems p have "r' = r" "a' = a" "k \<notin> set (map fst ps)"
      by (auto simp: image_iff)
    with True p Cons.prems(3) show ?thesis
      by (auto simp: kept_Cons map_of_kept_None)
  next
    case False
    with Cons p show ?thesis
      by (auto simp: kept_Cons)
  qed
qed

lemma field_kept:
  "distinct (map fst ps) \<Longrightarrow> (k, r, a) \<in> set ps \<Longrightarrow> k \<noteq> ''__proto__'' \<Longrightarrow>
   field (kept ps) k = ok_value r"
  by (auto simp: field_def map_of_kept)

lemma has_key_map_of: "has_key kvs k \<longleftrightarrow> map_of kvs k \<noteq> None"
  by (simp add: has_key_def map_of_eq_None_iff)

lemma has_key_kept:
  "distinct (map fst ps) \<Longrightarrow> (k, r, a) \<in> set ps \<Longrightarrow> k \<noteq> ''__proto__'' \<Longrightarrow>
   has_key (kept ps) k \<longleftrightarrow> ok_value r \<noteq> JUndefined \<or> a"
  by (simp add: has_key_map_of map_of_kept)

lemma kept_map:
  "kept (map f xs) = concat (map (\<lambda>e. kept [f e]) xs)"
  by (induction xs) (auto simp: kept_def)

lemma kept_cong:
  "(\<And>e. e \<in> set xs \<Longrightarrow> kept [f e] = kept [g e]) \<Longrightarrow> kept (map f xs) = kept (map g xs)"
  unfolding kept_map by (induction xs) auto

lemma kept_OK_True:
  "''__proto__'' \<notin> set (map fst out) \<Longrightarrow> kept (map (\<lambda>(k, y). (k, OK y, True)) out) = out"
  by (induction out) (auto simp: kept_Cons)

lemma in_kept:
  "(k, y) \<in> set (kept ps) \<Longrightarrow> k \<noteq> ''__proto__'' \<and> (\<exists>r a. (k, r, a) \<in> set ps \<and> y = ok_value r)"
proof (induction ps)
  case Nil
  then show ?case by simp
next
  case (Cons p ps)
  obtain k' r' a' where p: "p = (k', r', a')" by (cases p) auto
  from Cons.prems p have "(k = k' \<and> y = ok_value r' \<and> k \<noteq> ''__proto__'') \<or> (k, y) \<in> set (kept ps)"
    by (auto simp: kept_Cons split: if_splits)
  then show ?case
  proof
    assume "k = k' \<and> y = ok_value r' \<and> k \<noteq> ''__proto__''"
    with p show ?thesis by auto
  next
    assume "(k, y) \<in> set (kept ps)"
    from Cons.IH[OF this] show ?thesis by auto
  qed
qed

lemma zparse_idem:
  "wf_schema s \<Longrightarrow> fst (zparse F s pa v) = OK x \<Longrightarrow> fst (zparse F s pa' x) = OK x"
proof (induction F s pa v arbitrary: x pa' rule: zparse.induct)
  case (1 F checks pa v)
  then show ?case
    using string_check_issues_path[of F pa _ _ pa']
    by (auto split: jsval.splits if_splits simp: Let_def)
next
  case (2 F checks pa v)
  then show ?case
    using number_check_issues_path[of pa _ _ pa']
    by (auto split: jsval.splits if_splits simp: Let_def)
next
  case (7 F elem pa v)
  show ?case
  proof (cases v)
    case (JArr xs)
    define rs where "rs = map (\<lambda>(i, x). fst (zparse F elem (pa @ [Index i]) x)) (enumerate 0 xs)"
    from "7.prems"(2) JArr have "mergeArray False [] rs = OK x"
      by (simp add: rs_def Let_def comp_def case_prod_unfold)
    then have ok: "list_all is_OK rs" and x: "x = JArr (map ok_value rs)"
      by (simp_all add: mergeArray_OK_iff)
    let ?ys = "map ok_value rs"
    have len: "length rs = length xs" by (simp add: rs_def)
    have elem_ok: "fst (zparse F elem (pa' @ [Index j]) (?ys ! j)) = OK (?ys ! j)"
      if j: "j < length xs" for j
    proof -
      have mem: "(j, xs ! j) \<in> set (enumerate 0 xs)"
        using j by (simp add: in_set_enumerate_eq)
      have "rs ! j = fst (zparse F elem (pa @ [Index j]) (xs ! j))"
        using j by (simp add: rs_def nth_enumerate_eq)
      moreover have "is_OK (rs ! j)"
        using ok j len by (simp add: list_all_length)
      ultimately have "fst (zparse F elem (pa @ [Index j]) (xs ! j)) = OK (?ys ! j)"
        using j len by (metis is_OK_conv nth_map)
      with "7.IH"[OF JArr mem refl] "7.prems"(1) show ?thesis by simp
    qed
    have "map (\<lambda>(i, y). fst (zparse F elem (pa' @ [Index i]) y)) (enumerate 0 ?ys) = map OK ?ys"
      by (rule nth_equalityI) (use elem_ok len in \<open>auto simp: nth_enumerate_eq\<close>)
    then show ?thesis
      using x by (simp add: Let_def comp_def case_prod_unfold mergeArray_OK_iff list_all_iff)
  qed (use "7.prems" in auto)
next
  case (8 F items pa v)
  show ?case
  proof (cases v)
    case (JArr xs)
    define rs where "rs = map (\<lambda>(i, s). fst (zparse F s (pa @ [Index i]) (xs ! i))) (enumerate 0 items)"
    from "8.prems"(2) JArr have nlt: "\<not> length xs < length items"
      by (auto split: if_splits)
    with "8.prems"(2) JArr have m: "mergeArray (length items < length xs) [] rs = OK x"
      by (simp add: rs_def Let_def comp_def case_prod_unfold)
    then have ok: "list_all is_OK rs" and x: "x = JArr (map ok_value rs)"
      and ngt: "\<not> length items < length xs"
      by (simp_all add: mergeArray_OK_iff)
    let ?ys = "map ok_value rs"
    have len: "length rs = length items" by (simp add: rs_def)
    have elem_ok: "fst (zparse F (items ! j) (pa' @ [Index j]) (?ys ! j)) = OK (?ys ! j)"
      if j: "j < length items" for j
    proof -
      have mem: "(j, items ! j) \<in> set (enumerate 0 items)"
        using j by (simp add: in_set_enumerate_eq)
      have wf: "wf_schema (items ! j)"
        using "8.prems"(1) j by (simp add: list_all_length)
      have "rs ! j = fst (zparse F (items ! j) (pa @ [Index j]) (xs ! j))"
        using j by (simp add: rs_def nth_enumerate_eq)
      moreover have "is_OK (rs ! j)"
        using ok j len by (simp add: list_all_length)
      ultimately have "fst (zparse F (items ! j) (pa @ [Index j]) (xs ! j)) = OK (?ys ! j)"
        using j len by (metis is_OK_conv nth_map)
      with "8.IH"[OF JArr nlt refl mem refl wf] show ?thesis by simp
    qed
    have "map (\<lambda>(i, s). fst (zparse F s (pa' @ [Index i]) (?ys ! i))) (enumerate 0 items) = map OK ?ys"
      by (rule nth_equalityI) (use elem_ok len in \<open>auto simp: nth_enumerate_eq\<close>)
    then show ?thesis
      using x len by (simp add: Let_def comp_def case_prod_unfold mergeArray_OK_iff list_all_iff)
  qed (use "8.prems" in auto)
next
  case (9 F valueType pa v)
  show ?case
  proof (cases v)
    case (JObj kvs)
    define ps where "ps = map (\<lambda>(k, x). (k, fst (zparse F valueType (pa @ [Key k]) x), True)) kvs"
    from "9.prems"(2) JObj have "mergeObjectSync False [] ps = OK x"
      by (simp add: ps_def Let_def comp_def case_prod_unfold)
    then have ok: "list_all (\<lambda>p. is_OK (fst (snd p))) ps" and x: "x = JObj (kept ps)"
      by (simp_all add: mergeObjectSync_OK_iff)
    let ?out = "kept ps"
    have entry_ok: "fst (zparse F valueType (pa' @ [Key k]) y) = OK y" if "(k, y) \<in> set ?out" for k y
    proof -
      from in_kept[OF that] obtain r a where mem: "(k, r, a) \<in> set ps" and y: "y = ok_value r"
        by blast
      from mem obtain x0 where x0: "(k, x0) \<in> set kvs"
        and r: "r = fst (zparse F valueType (pa @ [Key k]) x0)"
        by (auto simp: ps_def)
      from ok mem have "is_OK r" by (auto simp: list_all_iff)
      with y r have "fst (zparse F valueType (pa @ [Key k]) x0) = OK y"
        by (metis is_OK_conv)
      with "9.IH"[OF JObj x0 refl] "9.prems"(1) show ?thesis by simp
    qed
    have noproto: "''__proto__'' \<notin> set (map fst ?out)"
      using in_kept[of "''__proto__''" _ ps] by auto
    have eq: "map (\<lambda>(k, y). (k, fst (zparse F valueType (pa' @ [Key k]) y), True)) ?out
          = map (\<lambda>(k, y). (k, OK y, True)) ?out"
      using entry_ok by (auto intro!: map_cong)
    have "fst (zparse F (ZRecord valueType) pa' (JObj ?out))
          = mergeObjectSync False []
              (map (\<lambda>(k, y). (k, fst (zparse F valueType (pa' @ [Key k]) y), True)) ?out)"
      by (simp add: Let_def comp_def case_prod_unfold)
    also have "\<dots> = mergeObjectSync False [] (map (\<lambda>(k, y). (k, OK y, True)) ?out)"
      by (simp only: eq)
    also have "\<dots> = OK (JObj ?out)"
      using kept_OK_True[OF noproto]
      by (simp add: mergeObjectSync_OK_iff list_all_iff split_beta)
    finally show ?thesis using x by simp
  qed (use "9.prems" in auto)
next
  case (10 F shape pa v)
  show ?case
  proof (cases v)
    case (JObj kvs)
    define f where "f = (\<lambda>(k, s). (k, fst (zparse F s (pa @ [Key k]) (field kvs k)), has_key kvs k))"
    define ps where "ps = map f shape"
    from "10.prems"(2) JObj have "mergeObjectSync False [] ps = OK x"
      by (simp add: ps_def f_def Let_def comp_def case_prod_unfold)
    then have ok: "list_all (\<lambda>p. is_OK (fst (snd p))) ps" and x: "x = JObj (kept ps)"
      by (simp_all add: mergeObjectSync_OK_iff)
    let ?out = "kept ps"
    from "10.prems"(1) have dist: "distinct (map fst ps)"
      and noproto: "''__proto__'' \<notin> set (map fst shape)"
      and wfs: "\<And>k s. (k, s) \<in> set shape \<Longrightarrow> wf_schema s"
      by (auto simp: ps_def f_def comp_def case_prod_unfold list_all_iff)
    define g where "g = (\<lambda>(k, s). (k, fst (zparse F s (pa' @ [Key k]) (field ?out k)), has_key ?out k))"
    have step: "is_OK (fst (snd (g e))) \<and> kept [g e] = kept [f e]" if e: "e \<in> set shape" for e
    proof -
      obtain k s where ks: "e = (k, s)" by (cases e) auto
      let ?r = "fst (zparse F s (pa @ [Key k]) (field kvs k))"
      from e ks have mem: "(k, ?r, has_key kvs k) \<in> set ps"
        by (force simp: ps_def f_def)
      from e ks noproto have kp: "k \<noteq> ''__proto__''" by force
      from ok mem have "is_OK ?r" by (auto simp: list_all_iff)
      then have r: "?r = OK (ok_value ?r)" by (simp add: is_OK_conv[symmetric])
      have fld: "field ?out k = ok_value ?r" by (rule field_kept[OF dist mem kp])
      have hk: "has_key ?out k \<longleftrightarrow> ok_value ?r \<noteq> JUndefined \<or> has_key kvs k"
        by (rule has_key_kept[OF dist mem kp])
      from e ks have "(k, s) \<in> set shape" by simp
      from "10.IH"[OF JObj this refl wfs[OF this] r]
      have "fst (zparse F s (pa' @ [Key k]) (ok_value ?r)) = OK (ok_value ?r)" .
      with fld hk ks show ?thesis
        by (auto simp: g_def f_def kept_Cons)
    qed
    have "list_all (\<lambda>p. is_OK (fst (snd p))) (map g shape)"
      using step by (auto simp: list_all_iff)
    moreover have "kept (map g shape) = kept ps"
      unfolding ps_def using step by (intro kept_cong) auto
    ultimately show ?thesis
      using x by (simp add: g_def Let_def comp_def case_prod_unfold mergeObjectSync_OK_iff)
  qed (use "10.prems" in auto)
qed (auto split: jsval.splits if_splits)

text \<open>The array, record and object cases of \<open>zparse\<close>, status and issues apart.\<close>

lemma zparse_ZArray:
  "zparse F (ZArray elem) pa (JArr xs) =
     (mergeArray False [] (map (\<lambda>(i, x). fst (zparse F elem (pa @ [Index i]) x)) (enumerate 0 xs)),
      concat (map (\<lambda>(i, x). snd (zparse F elem (pa @ [Index i]) x)) (enumerate 0 xs)))"
  by (simp add: Let_def comp_def case_prod_unfold)

lemma zparse_ZRecord:
  "zparse F (ZRecord valueType) pa (JObj kvs) =
     (mergeObjectSync False []
        (map (\<lambda>(k, x). (k, fst (zparse F valueType (pa @ [Key k]) x), True)) kvs),
      concat (map (\<lambda>(k, x). snd (zparse F valueType (pa @ [Key k]) x)) kvs))"
  by (simp add: Let_def comp_def case_prod_unfold)

lemma zparse_ZObject:
  "zparse F (ZObject shape) pa (JObj kvs) =
     (mergeObjectSync False []
        (map (\<lambda>(k, s). (k, fst (zparse F s (pa @ [Key k]) (field kvs k)), has_key kvs k)) shape),
      concat (map (\<lambda>(k, s). snd (zparse F s (pa @ [Key k]) (field kvs k))) shape))"
  by (simp add: Let_def comp_def case_prod_unfold)

lemma zparse_not_array:
  "(\<forall>xs. v \<noteq> JArr xs) \<Longrightarrow> zparse F (ZArray elem) pa v = (INVALID, [invalid_type pa ''array'' v])"
  by (cases v) auto

lemma zparse_not_object:
  "(\<forall>kvs. v \<noteq> JObj kvs) \<Longrightarrow> zparse F (ZObject shape) pa v = (INVALID, [invalid_type pa ''object'' v])"
  "(\<forall>kvs. v \<noteq> JObj kvs) \<Longrightarrow> zparse F (ZRecord valueType) pa v = (INVALID, [invalid_type pa ''object'' v])"
  by (cases v; simp)+

declare zparse.simps [simp del]

section \<open>Results and exceptions of the validators\<close>

lemma zparse_ZObject_OK:
  "fst (zparse F (ZObject shape) pa v) = OK x \<Longrightarrow>
   \<exists>kvs. v = JObj kvs \<and>
     x = JObj (kept (map (\<lambda>(k, s). (k, fst (zparse F s (pa @ [Key k]) (field kvs k)), has_key kvs k)) shape))"
  by (cases v) (auto simp: zparse_ZObject zparse_not_object mergeObjectSync_OK_iff)

lemma parse_cases:
  "(\<exists>x. parse F schema v = Inr x \<and> fst (zparse F schema [] v) = OK x)
   \<or> (\<exists>issues. parse F schema v = Inl (ZodError issues) \<and> issues \<noteq> []
        \<and> issues = snd (zparse F schema [] v) \<and> \<not> is_OK (fst (zparse F schema [] v)))"
proof (cases "is_OK (fst (zparse F schema [] v))")
  case True
  then obtain x where "fst (zparse F schema [] v) = OK x" by (auto simp: is_OK_conv)
  then show ?thesis by (auto simp: parse_def split: prod.splits)
next
  case False
  from zparse_failure_has_issues[OF False] False show ?thesis
    by (auto simp: parse_def split: prod.splits parse_return.splits)
qed

lemma parse_or_errors_cases:
  "(\<exists>x. parse_or_errors F schema v = Inr (succeed x) \<and> fst (zparse F schema [] v) = OK x)
   \<or> (\<exists>es. parse_or_errors F schema v = Inr (fail es) \<and> es \<noteq> []
        \<and> \<not> is_OK (fst (zparse F schema [] v))
        \<and> parseZodError (ZodError (snd (zparse F schema [] v))) = Inr es)"
  using parse_cases[of F schema v]
  by (auto simp: parse_or_errors_def parseZodError_def)

lemma success_simps [simp]:
  "success (succeed x)" "\<not> success (fail es)"
  "data (succeed x) = Some x" "data (fail es) = None"
  "errors (succeed x) = None" "errors (fail es) = Some es"
  by (simp_all add: succeed_def fail_def)

lemma validate_success:
  "validate F entry = Inr b \<Longrightarrow> success b \<Longrightarrow>
   \<exists>kvs out. entry = JObj kvs \<and> b = succeed (JObj out)
     \<and> fst (zparse F MemoryEntrySchema [] entry) = OK (JObj out)"
proof -
  assume v: "validate F entry = Inr b" and s: "success b"
  with parse_or_errors_cases[of F MemoryEntrySchema entry]
  obtain x where x: "b = succeed x" "fst (zparse F MemoryEntrySchema [] entry) = OK x"
    by (auto simp: validate_def)
  from zparse_ZObject_OK[OF x(2)[unfolded MemoryEntrySchema_def]] x show ?thesis
    by auto
qed

subsection \<open>Evaluation of the model on concrete entries\<close>

text \<open>The entry of the specification's example, with a complete envelope: the project name is
  not a legal one and \<^verbatim>\<open>progress\<close> is 150.\<close>

definition bad_project_and_progress :: jsval where
  "bad_project_and_progress =
     JObj (envelope ''TaskState'' ''bad project!'' ''feature/x'' (task_content 150))"

lemma sn100: "string_of_nat 100 = ''100''"
  by (simp add: string_of_nat.simps digit_char_def)

lemma zparse_ZArray_Nil: "zparse F (ZArray elem) pa (JArr []) = (OK (JArr []), [])"
  by (simp add: zparse_ZArray)

lemmas eval_defs =
  zparse.simps(1-6,8-12) zparse_ZArray_Nil parse_or_errors_def parse_def parseZodError_def path_string_def
  MemoryEntrySchema_def MemoryEntryShape_def MemoryEntryType_def MemoryEntryStatus_def
  envelope_def field_def has_key_def js_get_def Let_def extend_shape_def
  sample_platform_def sample_uuid_test_def hex_char_def sample_datetime_test_def digit_def
  invalid_type_def invalid_enum_value_def invalid_literal_def getParsedType_def joinValues_def
  num_less_def num_greater_def string_of_int_def

lemma validate_bad:
  "validate sample_platform bad_project_and_progress = Inr (succeed bad_project_and_progress)"
  by (simp add: bad_project_and_progress_def validate_def task_content_def eval_defs)

lemma validateByType_bad:
  "validateByType sample_platform bad_project_and_progress =
     Inr (fail [\<lparr>code = ''too_big'',
                 message = ''Number must be less than or equal to 100'',
                 path = Some [''content'', ''progress''],
                 context = Some [(''received'', JUndefined), (''expected'', JUndefined)]\<rparr>])"
  by (simp add: bad_project_and_progress_def validateByType_def task_content_def eval_defs
      TaskStateSchema_def TaskStateContentSchema_def sn100)

section \<open>What phase 1 establishes\<close>

text \<open>The shape \<^verbatim>\<open>extend\<close> computes for a variant, and the five variants of the dispatch.\<close>

definition variant_shape :: "string \<Rightarrow> zschema \<Rightarrow> (string \<times> zschema) list" where
  "variant_shape T C =
     [(''id'', ZString [Uuid]),
      (''type'', ZLiteral T),
      (''project'', ZString [Min 1]),
      (''taskId'', ZNullable (ZString [])),
      (''branch'', ZString [Min 1]),
      (''timestamp'', ZString [Datetime]),
      (''status'', ZNativeEnum MemoryEntryStatus),
      (''content'', C),
      (''metadata'', ZOptional (ZRecord ZUnknown)),
      (''embedding'', ZOptional (ZArray (ZNumber []))),
      (''tags'', ZOptional (ZArray (ZString [])))]"

definition variants :: "(string \<times> zschema) list" where
  "variants =
     [(''TaskState'', TaskStateContentSchema),
      (''CommitDelta'', CommitDeltaContentSchema),
      (''ReasoningEntry'', ReasoningEntryContentSchema),
      (''SummaryCheckpoint'', SummaryCheckpointContentSchema),
      (''BranchMeta'', BranchMetaContentSchema)]"

lemma extend_variant:
  "extend_shape MemoryEntryShape [(''type'', ZLiteral T), (''content'', C)] = variant_shape T C"
  by (simp add: extend_shape_def MemoryEntryShape_def variant_shape_def)

lemmas variant_schema_defs =
  TaskStateSchema_def CommitDeltaSchema_def ReasoningEntrySchema_def
  SummaryCheckpointSchema_def BranchMetaSchema_def

lemmas content_schema_defs =
  TaskStateContentSchema_def CommitDeltaContentSchema_def ReasoningEntryContentSchema_def
  SummaryCheckpointContentSchema_def BranchMetaContentSchema_def

lemma variants_wf:
  "(T, C) \<in> set variants \<Longrightarrow> wf_schema (ZObject (variant_shape T C)) \<and> (\<exists>cshape. C = ZObject cshape)"
  by (auto simp: variants_def variant_shape_def content_schema_defs)

lemma variants_known: "(T, C) \<in> set variants \<Longrightarrow> T \<in> set MemoryEntryType"
  by (auto simp: variants_def MemoryEntryType_def)

lemma validateByType_variant:
  "(T, C) \<in> set variants \<Longrightarrow> js_get (JObj kvs) ''type'' = JStr T \<Longrightarrow>
   validateByType F (JObj kvs) = parse_or_errors F (ZObject (variant_shape T C)) (JObj kvs)"
  by (auto simp: variants_def validateByType_def variant_schema_defs extend_variant Let_def)

lemma validateByType_unknown:
  "js_get (JObj kvs) ''type'' = t \<Longrightarrow> t \<notin> JStr ` set MemoryEntryType \<Longrightarrow>
   validateByType F (JObj kvs) =
     Inr (fail [\<lparr>code = ''INVALID_TYPE'',
                 message = ''Unknown memory entry type: '' @ js_toString F t,
                 path = Some [''type''], context = None\<rparr>])"
  by (auto simp: validateByType_def MemoryEntryType_def Let_def)

lemma validateByType_success:
  assumes "validateByType F (JObj kvs) = Inr r" "success r"
  shows "\<exists>T C x. (T, C) \<in> set variants \<and> js_get (JObj kvs) ''type'' = JStr T
           \<and> fst (zparse F (ZObject (variant_shape T C)) [] (JObj kvs)) = OK x \<and> r = succeed x"
proof (cases "js_get (JObj kvs) ''type'' \<in> JStr ` set MemoryEntryType")
  case False
  from validateByType_unknown[OF refl False, of F] assms show ?thesis by auto
next
  case True
  then obtain T C where TC: "(T, C) \<in> set variants" "js_get (JObj kvs) ''type'' = JStr T"
    by (auto simp: MemoryEntryType_def variants_def)
  from validateByType_variant[OF TC, of F] assms
    parse_or_errors_cases[of F "ZObject (variant_shape T C)" "JObj kvs"] TC
  show ?thesis by auto
qed

lemma zparse_ZObject_OK_all:
  "fst (zparse F (ZObject shape) pa v) = OK x \<Longrightarrow>
   \<exists>kvs. v = JObj kvs \<and>
     list_all (\<lambda>(k, s). is_OK (fst (zparse F s (pa @ [Key k]) (field kvs k)))) shape \<and>
     x = JObj (kept (map (\<lambda>(k, s). (k, fst (zparse F s (pa @ [Key k]) (field kvs k)), has_key kvs k)) shape))"
  by (cases v) (auto simp: zparse_ZObject zparse_not_object mergeObjectSync_OK_iff list_all_iff)

lemma object_field:
  assumes "fst (zparse F (ZObject shape) pa v) = OK x"
    and "distinct (map fst shape)" and "(k, s) \<in> set shape" and "k \<noteq> ''__proto__''"
  shows "\<exists>kvs. v = JObj kvs \<and> fst (zparse F s (pa @ [Key k]) (field kvs k)) = OK (js_get x k)"
proof -
  from zparse_ZObject_OK_all[OF assms(1)] obtain kvs where v: "v = JObj kvs"
    and ok: "list_all (\<lambda>(k, s). is_OK (fst (zparse F s (pa @ [Key k]) (field kvs k)))) shape"
    and x: "x = JObj (kept (map (\<lambda>(k, s). (k, fst (zparse F s (pa @ [Key k]) (field kvs k)), has_key kvs k)) shape))"
    by blast
  let ?ps = "map (\<lambda>(k, s). (k, fst (zparse F s (pa @ [Key k]) (field kvs k)), has_key kvs k)) shape"
  let ?r = "fst (zparse F s (pa @ [Key k]) (field kvs k))"
  have dist: "distinct (map fst ?ps)" using assms(2) by (simp add: comp_def case_prod_unfold)
  have mem: "(k, ?r, has_key kvs k) \<in> set ?ps" using assms(3) by force
  from ok assms(3) have "is_OK ?r" by (auto simp: list_all_iff)
  then have "?r = OK (ok_value ?r)" by (simp add: is_OK_conv[symmetric])
  with field_kept[OF dist mem assms(4)] x v show ?thesis
    by (simp add: js_get_def)
qed

lemma zparse_ZString_OK:
  "fst (zparse F (ZString cs) pa v) = OK y \<Longrightarrow> y = v \<and> (\<exists>s. v = JStr s)"
  by (cases v) (auto simp: zparse.simps Let_def split: if_splits)

lemma zparse_ZLiteral_OK:
  "fst (zparse F (ZLiteral T) pa v) = OK y \<Longrightarrow> y = JStr T \<and> v = JStr T"
  by (auto simp: zparse.simps split: if_splits)

definition valid_number :: "jsval \<Rightarrow> bool" where
  "valid_number v = (case v of JNum n \<Rightarrow> n \<noteq> NaN | _ \<Rightarrow> False)"

lemma zparse_ZNumber_OK:
  "fst (zparse F (ZNumber []) pa v) = OK y \<longleftrightarrow> y = v \<and> valid_number v"
  by (cases v) (auto simp: zparse.simps valid_number_def)

lemma zparse_ZNumber_is_OK:
  "is_OK (fst (zparse F (ZNumber []) pa v)) \<longleftrightarrow> valid_number v"
  by (cases v) (auto simp: zparse.simps valid_number_def)

lemma zparse_number_array_OK:
  "fst (zparse F (ZArray (ZNumber [])) pa v) = OK y \<longleftrightarrow>
   (\<exists>xs. v = JArr xs \<and> y = v \<and> list_all valid_number xs)"
proof (cases v)
  case (JArr xs)
  let ?rs = "map (\<lambda>(i, x). fst (zparse F (ZNumber []) (pa @ [Index i]) x)) (enumerate 0 xs)"
  have nth: "?rs ! i = fst (zparse F (ZNumber []) (pa @ [Index i]) (xs ! i))" if "i < length xs" for i
    using that by (simp add: nth_enumerate_eq)
  have "list_all is_OK ?rs \<longleftrightarrow> (\<forall>i<length xs. is_OK (?rs ! i))"
    by (simp add: list_all_length)
  also have "\<dots> \<longleftrightarrow> (\<forall>i<length xs. valid_number (xs ! i))"
    using nth by (simp add: zparse_ZNumber_is_OK)
  finally have "list_all is_OK ?rs \<longleftrightarrow> list_all valid_number xs"
    by (simp add: list_all_length)
  moreover have "map ok_value ?rs = xs" if "list_all valid_number xs"
  proof (rule nth_equalityI)
    show "length (map ok_value ?rs) = length xs" by simp
  next
    fix i assume "i < length (map ok_value ?rs)"
    then have i: "i < length xs" by simp
    with that have "fst (zparse F (ZNumber []) (pa @ [Index i]) (xs ! i)) = OK (xs ! i)"
      by (simp add: list_all_length zparse_ZNumber_OK)
    with i nth[OF i] show "map ok_value ?rs ! i = xs ! i" by simp
  qed
  ultimately show ?thesis using JArr
    by (auto simp: zparse_ZArray mergeArray_OK_iff)
qed (auto simp: zparse_not_array)

lemma zparse_embedding_OK:
  "fst (zparse F (ZOptional (ZArray (ZNumber []))) pa v) = OK y \<longleftrightarrow>
   y = v \<and> (v = JUndefined \<or> (\<exists>xs. v = JArr xs \<and> list_all valid_number xs))"
  by (auto simp: zparse.simps(11) zparse_number_array_OK)

text \<open>What phase 1 has established when it succeeds.\<close>

lemma validateTyped_success:
  assumes "validateTyped F entry = Inr r" "success r"
  shows "\<exists>kvs out T C x. entry = JObj kvs
           \<and> fst (zparse F MemoryEntrySchema [] entry) = OK (JObj out)
           \<and> (T, C) \<in> set variants \<and> field out ''type'' = JStr T
           \<and> fst (zparse F (ZObject (variant_shape T C)) [] (JObj out)) = OK x
           \<and> r = succeed x"
proof -
  from assms obtain b where b: "validate F entry = Inr b"
    by (auto simp: validateTyped_def split: sum.splits)
  have sb: "success b"
  proof (rule ccontr)
    assume "\<not> success b"
    with b assms show False by (simp add: validateTyped_def)
  qed
  from validate_success[OF b sb] obtain kvs out where e: "entry = JObj kvs"
    and bo: "b = succeed (JObj out)"
    and z: "fst (zparse F MemoryEntrySchema [] entry) = OK (JObj out)" by blast
  from b bo assms have "validateByType F (JObj out) = Inr r"
    by (simp add: validateTyped_def no_data_def truthy_def)
  from validateByType_success[OF this assms(2)] e z show ?thesis
    by (auto simp: js_get_def)
qed

lemma variant_shape_distinct: "distinct (map fst (variant_shape T C))"
  by (simp add: variant_shape_def)

lemma MemoryEntryShape_distinct: "distinct (map fst MemoryEntryShape)"
  by (simp add: MemoryEntryShape_def)

lemma phase1_fields:
  assumes "validateTyped F entry = Inr r" "success r"
  shows "\<exists>kvs x p b c. entry = JObj kvs \<and> r = succeed (JObj x)
           \<and> field kvs ''project'' = JStr p \<and> field x ''project'' = JStr p
           \<and> field kvs ''branch'' = JStr b \<and> field x ''branch'' = JStr b
           \<and> field x ''content'' = JObj c
           \<and> field x ''embedding'' = field kvs ''embedding''
           \<and> (field kvs ''embedding'' = JUndefined
               \<or> (\<exists>xs. field kvs ''embedding'' = JArr xs \<and> list_all valid_number xs))"
proof -
  from validateTyped_success[OF assms] obtain kvs out T C x where e: "entry = JObj kvs"
    and z1: "fst (zparse F (ZObject MemoryEntryShape) [] (JObj kvs)) = OK (JObj out)"
    and TC: "(T, C) \<in> set variants"
    and z2: "fst (zparse F (ZObject (variant_shape T C)) [] (JObj out)) = OK x"
    and r: "r = succeed x"
    by (auto simp: MemoryEntrySchema_def)
  from zparse_ZObject_OK[OF z2] obtain x' where x: "x = JObj x'" by blast
  from variants_wf[OF TC] obtain cshape where C: "C = ZObject cshape" by blast
  note f1 = object_field[OF z1 MemoryEntryShape_distinct]
  note f2 = object_field[OF z2 variant_shape_distinct]
  have p1: "fst (zparse F (ZString [Min 1]) [Key ''project''] (field kvs ''project'')) = OK (field out ''project'')"
    using f1[of "''project''" "ZString [Min 1]"] by (simp add: MemoryEntryShape_def js_get_def)
  have p2: "fst (zparse F (ZString [Min 1]) [Key ''project''] (field out ''project'')) = OK (field x' ''project'')"
    using f2[of "''project''" "ZString [Min 1]"] x by (simp add: variant_shape_def js_get_def)
  have b1: "fst (zparse F (ZString [Min 1]) [Key ''branch''] (field kvs ''branch'')) = OK (field out ''branch'')"
    using f1[of "''branch''" "ZString [Min 1]"] by (simp add: MemoryEntryShape_def js_get_def)
  have b2: "fst (zparse F (ZString [Min 1]) [Key ''branch''] (field out ''branch'')) = OK (field x' ''branch'')"
    using f2[of "''branch''" "ZString [Min 1]"] x by (simp add: variant_shape_def js_get_def)
  have e1: "fst (zparse F (ZOptional (ZArray (ZNumber []))) [Key ''embedding''] (field kvs ''embedding'')) = OK (field out ''embedding'')"
    using f1[of "''embedding''" "ZOptional (ZArray (ZNumber []))"] by (simp add: MemoryEntryShape_def js_get_def)
  have e2: "fst (zparse F (ZOptional (ZArray (ZNumber []))) [Key ''embedding''] (field out ''embedding'')) = OK (field x' ''embedding'')"
    using f2[of "''embedding''" "ZOptional (ZArray (ZNumber []))"] x by (simp add: variant_shape_def js_get_def)
  have c2: "fst (zparse F (ZObject cshape) [Key ''content''] (field out ''content'')) = OK (field x' ''content'')"
    using f2[of "''content''" C] x C by (simp add: variant_shape_def js_get_def)
  from zparse_ZObject_OK[OF c2] obtain c where c: "field x' ''content'' = JObj c" by blast
  from zparse_ZString_OK[OF p1] zparse_ZString_OK[OF p2] zparse_ZString_OK[OF b1] zparse_ZString_OK[OF b2]
    e1 e2 c e r x
  show ?thesis by (auto simp: zparse_embedding_OK)
qed

section \<open>Phase 1 failures are returned alone\<close>

text \<open>
  Claim C1. When phase 1 reports an error, either the structural validation
  (\<open>validate\<close>) or, after it has passed, the type dispatch (\<open>validateByType\<close>),
  \<open>validateMemoryEntry\<close> returns that very result: its errors are exactly that phase's,
  and no field validator of phase 2 adds one. The witness is an entry whose project name
  is illegal and whose \<^verbatim>\<open>progress\<close> is 150: the only error reported is the content
  schema's, on the path \<^verbatim>\<open>content.progress\<close>, although the project validator rejects the
  name.
\<close>

theorem phase1_failure_returned_alone:
  assumes "(validate F entry = Inr r \<and> \<not> success r)
         \<or> (\<exists>b d. validate F entry = Inr b \<and> success b \<and> data b = Some d
                  \<and> validateByType F d = Inr r \<and> \<not> success r)"
  shows "validateMemoryEntry F entry = Inr r"
  using assms
proof
  assume "validate F entry = Inr r \<and> \<not> success r"
  then show ?thesis by (simp add: validateMemoryEntry_def validateTyped_def)
next
  assume "\<exists>b d. validate F entry = Inr b \<and> success b \<and> data b = Some d
                  \<and> validateByType F d = Inr r \<and> \<not> success r"
  then obtain b d where b: "validate F entry = Inr b" "success b" "data b = Some d"
    and r: "validateByType F d = Inr r" "\<not> success r" by blast
  from validate_success[OF b(1,2)] b(3) have "truthy d"
    by (auto simp: truthy_def)
  with b r have "validateTyped F entry = Inr r"
    by (simp add: validateTyped_def no_data_def)
  with r show ?thesis by (simp add: validateMemoryEntry_def)
qed

theorem phase1_failure_returned_alone_witness:
  "validate sample_platform bad_project_and_progress = Inr (succeed bad_project_and_progress)
   \<and> \<not> success (ProjectValidator_validate ''bad project!'')
   \<and> validateMemoryEntry sample_platform bad_project_and_progress =
       Inr (fail [\<lparr>code = ''too_big'',
                   message = ''Number must be less than or equal to 100'',
                   path = Some [''content'', ''progress''],
                   context = Some [(''received'', JUndefined), (''expected'', JUndefined)]\<rparr>])"
proof -
  let ?r = "fail [\<lparr>code = ''too_big'',
                   message = ''Number must be less than or equal to 100'',
                   path = Some [''content'', ''progress''],
                   context = Some [(''received'', JUndefined), (''expected'', JUndefined)]\<rparr>]
            :: jsval ValidationResult"
  have "\<exists>b d. validate sample_platform bad_project_and_progress = Inr b \<and> success b
           \<and> data b = Some d \<and> validateByType sample_platform d = Inr ?r \<and> \<not> success ?r"
    using validate_bad validateByType_bad by (intro exI[of _ "succeed bad_project_and_progress"] exI[of _ bad_project_and_progress]) simp
  then have "validateMemoryEntry sample_platform bad_project_and_progress = Inr ?r"
    using phase1_failure_returned_alone[of sample_platform bad_project_and_progress ?r] by blast
  moreover have "\<not> success (ProjectValidator_validate ''bad project!'')"
    by (simp add: ProjectValidator_validate_def PROJECT_NAME_REGEX_test_def project_name_char_def Let_def)
  ultimately show ?thesis using validate_bad by simp
qed

section \<open>Phase 2\<close>

text \<open>Serialization throws exactly on a value that holds a \<^verbatim>\<open>BigInt\<close>.\<close>

lemma first_exception_cases:
  "\<forall>r\<in>set rs. r = Inl e \<or> (\<exists>x. r = Inr x) \<Longrightarrow>
   first_exception rs = (if Inl e \<in> set rs then Inl e else Inr (map projr rs))"
proof (induction rs)
  case Nil
  then show ?case by simp
next
  case (Cons r rs)
  then show ?case by (cases r) auto
qed

lemma JSON_stringify_cases:
  "(has_bigint v \<and> JSON_stringify F v = Inl bigint_error)
   \<or> (\<not> has_bigint v \<and> (\<exists>t. JSON_stringify F v = Inr t))"
proof (induction F v rule: JSON_stringify.induct)
  case (10 F xs)
  let ?rs = "map (JSON_stringify F) xs"
  from 10 have all: "\<forall>r\<in>set ?rs. r = Inl bigint_error \<or> (\<exists>x. r = Inr x)"
    by auto
  have ih: "has_bigint x \<longleftrightarrow> JSON_stringify F x = Inl bigint_error" if "x \<in> set xs" for x
    using 10[OF that] by auto
  have iff: "Inl bigint_error \<in> set ?rs \<longleftrightarrow> list_ex has_bigint xs"
  proof
    assume "Inl bigint_error \<in> set ?rs"
    then obtain x where "x \<in> set xs" "JSON_stringify F x = Inl bigint_error" by auto
    with ih show "list_ex has_bigint xs" by (auto simp: list_ex_iff)
  next
    assume "list_ex has_bigint xs"
    then obtain x where "x \<in> set xs" "has_bigint x" by (auto simp: list_ex_iff)
    with ih have "x \<in> set xs" "JSON_stringify F x = Inl bigint_error" by auto
    then show "Inl bigint_error \<in> set ?rs" by (metis image_eqI list.set_map)
  qed
  show ?case
    using first_exception_cases[OF all] iff by simp
next
  case (11 F kvs)
  let ?f = "\<lambda>(k, x). case JSON_stringify F x of Inl e \<Rightarrow> Inl e | Inr t \<Rightarrow> Inr (k, t)"
  let ?rs = "map ?f kvs"
  have all: "\<forall>r\<in>set ?rs. r = Inl bigint_error \<or> (\<exists>x. r = Inr x)"
  proof
    fix r assume "r \<in> set ?rs"
    then obtain k x where kx: "(k, x) \<in> set kvs" and r: "r = ?f (k, x)" by auto
    from "11"[OF kx refl] r show "r = Inl bigint_error \<or> (\<exists>x. r = Inr x)"
      by (auto split: sum.splits)
  qed
  have iff: "Inl bigint_error \<in> set ?rs \<longleftrightarrow> list_ex (\<lambda>(k, x). has_bigint x) kvs"
  proof
    assume "Inl bigint_error \<in> set ?rs"
    then obtain k x where kx: "(k, x) \<in> set kvs" and r: "Inl bigint_error = ?f (k, x)" by auto
    from "11"[OF kx refl] r have "has_bigint x" by (auto split: sum.splits)
    with kx show "list_ex (\<lambda>(k, x). has_bigint x) kvs" by (auto simp: list_ex_iff)
  next
    assume "list_ex (\<lambda>(k, x). has_bigint x) kvs"
    then obtain k x where kx: "(k, x) \<in> set kvs" and h: "has_bigint x" by (auto simp: list_ex_iff)
    from "11"[OF kx refl] h have "?f (k, x) = Inl bigint_error" by auto
    with kx show "Inl bigint_error \<in> set ?rs" by (metis (no_types, lifting) image_eqI list.set_map)
  qed
  show ?case
    using first_exception_cases[OF all] iff by simp
qed simp_all

lemma sizeInBytes_cases:
  "(has_bigint c \<and> sizeInBytes F c = Inl bigint_error)
   \<or> (\<not> has_bigint c \<and> (\<exists>n. sizeInBytes F c = Inr n))"
  using JSON_stringify_cases[of c F] by (auto simp: sizeInBytes_def)

definition error_list :: "'a ValidationResult \<Rightarrow> ValidationError list" where
  "error_list r = (case errors r of Some es \<Rightarrow> es | None \<Rightarrow> [])"

lemma error_list_simps [simp]: "error_list (fail es) = es" "error_list (succeed x) = []"
  by (simp_all add: error_list_def)

lemma pushed_simps [simp]: "pushed (fail es) = es" "pushed (succeed x) = []"
  by (simp_all add: pushed_def)

lemma pushed_if: "pushed (if 0 < length es then fail es else succeed x) = es"
  by (cases es) simp_all

lemma error_list_pushed:
  "error_list (if 0 < length es then fail es else succeed x) = es"
  by (cases es) simp_all

text \<open>The errors of the content size validator on a content that serializes to \<open>n\<close> bytes.\<close>

definition too_large_error :: "nat \<Rightarrow> ValidationError" where
  "too_large_error n =
     simple_error ''CONTENT_TOO_LARGE''
       (''Content size ('' @ string_of_nat n
          @ '' bytes) exceeds maximum allowed size (''
          @ string_of_nat MAX_CONTENT_SIZE @ '' bytes)'')"

definition string_too_long_error :: "string \<Rightarrow> ValidationError" where
  "string_too_long_error s =
     simple_error ''STRING_TOO_LONG''
       (''String length ('' @ string_of_nat (length s)
          @ '') exceeds maximum allowed length (''
          @ string_of_nat MAX_STRING_LENGTH @ '')'')"

definition content_errors :: "nat \<Rightarrow> jsval \<Rightarrow> ValidationError list" where
  "content_errors n content_v =
     (if n > MAX_CONTENT_SIZE then [too_large_error n] else [])
     @ (case content_v of
          JStr s \<Rightarrow> if length s > MAX_STRING_LENGTH then [string_too_long_error s] else []
        | _ \<Rightarrow> [])"

lemma ContentSizeValidator_result:
  "sizeInBytes F c = Inr n \<Longrightarrow>
   ContentSizeValidator_validate F c =
     Inr (if 0 < length (content_errors n c) then fail (content_errors n c) else succeed c)"
  unfolding ContentSizeValidator_validate_def content_errors_def Let_def
  by (simp add: too_large_error_def string_too_long_error_def split: jsval.splits)

lemma ContentSizeValidator_throws:
  "sizeInBytes F c = Inl e \<Longrightarrow> ContentSizeValidator_validate F c = Inl e"
  by (simp add: ContentSizeValidator_validate_def)

lemma content_errors_object [simp]:
  "content_errors n (JObj c) = (if n > MAX_CONTENT_SIZE then [too_large_error n] else [])"
  by (simp add: content_errors_def)

text \<open>The errors phase 2 collects on the entry phase 1 returns, when its content serializes
  to \<open>n\<close> bytes.\<close>

definition phase2_errors :: "string \<Rightarrow> string \<Rightarrow> nat \<Rightarrow> jsval \<Rightarrow> jsval \<Rightarrow> ValidationError list" where
  "phase2_errors project branch n content_v embedding =
     pushed (ProjectValidator_validate project)
     @ pushed (BranchValidator_validate branch)
     @ content_errors n content_v
     @ (if truthy embedding then pushed (EmbeddingValidator_validate embedding) else [])"

lemma validateMemoryEntry_phase2:
  assumes "validateTyped F entry = Inr (succeed (JObj x))"
    and "field x ''project'' = JStr p" and "field x ''branch'' = JStr b"
    and "sizeInBytes F (field x ''content'') = Inr n"
  shows "validateMemoryEntry F entry =
     (if phase2_errors p b n (field x ''content'') (field x ''embedding'') \<noteq> []
      then Inr (fail (phase2_errors p b n (field x ''content'') (field x ''embedding'')))
      else Inr (succeed (JObj x)))"
  using assms
  by (simp add: validateMemoryEntry_def no_data_def truthy_def js_get_def as_string_def
      phase2_errors_def Let_def ContentSizeValidator_result pushed_if)

lemma validateMemoryEntry_throws:
  assumes "validateTyped F entry = Inr (succeed (JObj x))"
    and "field x ''project'' = JStr p" and "field x ''branch'' = JStr b"
    and "sizeInBytes F (field x ''content'') = Inl e"
  shows "validateMemoryEntry F entry = Inl e"
  using assms
  by (simp add: validateMemoryEntry_def no_data_def truthy_def js_get_def as_string_def
      Let_def ContentSizeValidator_throws)

text \<open>The decimal texts the messages and paths of this file need.\<close>

lemma sn_small:
  "string_of_nat 0 = ''0''" "string_of_nat 1 = ''1''" "string_of_nat (Suc 0) = ''1''"
  "string_of_nat 3 = ''3''"
  "string_of_nat 100 = ''100''" "string_of_nat 250 = ''250''"
  by (simp_all add: string_of_nat.simps digit_char_def)

section \<open>Branch name violations are reported together\<close>

text \<open>
  The five violations of a branch name, in the specification's words: too short (below
  1), too long (above 250), bad format (the regular expression fails), a leading or
  trailing slash, consecutive slashes.
\<close>

definition branch_too_short :: ValidationError where
  "branch_too_short = simple_error ''TOO_SHORT'' ''Branch name must be at least 1 character(s)''"

definition branch_too_long :: ValidationError where
  "branch_too_long = simple_error ''TOO_LONG'' ''Branch name must be at most 250 characters''"

definition branch_bad_format :: ValidationError where
  "branch_bad_format = simple_error ''INVALID_FORMAT'' ''Branch name contains invalid characters''"


lemma BranchValidator_pushed:
  "pushed (BranchValidator_validate b) =
     (if length b < 1 then [branch_too_short] else [])
     @ (if length b > 250 then [branch_too_long] else [])
     @ (if \<not> BRANCH_NAME_REGEX_test b then [branch_bad_format] else [])
     @ (if startsWith b ''/'' \<or> endsWith b ''/'' then [slash_error] else [])
     @ (if str_includes b ''//'' then [consecutive_slashes_error] else [])"
  unfolding BranchValidator_validate_def Let_def pushed_if
  by (simp add: sn_small branch_too_short_def branch_too_long_def branch_bad_format_def)



definition slash_entry :: jsval where
  "slash_entry = JObj (envelope ''CommitDelta'' ''p'' ''/x//y/'' commit_content)"

lemmas commit_eval_defs =
  validateTyped_def validate_def validateByType_def no_data_def truthy_def succeed_def fail_def
  CommitDeltaSchema_def CommitDeltaContentSchema_def commit_content_def eval_defs



section \<open>Issues of the schema library\<close>

text \<open>The codes of the library's issues, and the error \<^verbatim>\<open>parseZodError\<close> makes of an issue.\<close>

definition zod_codes :: "string set" where
  "zod_codes = {''invalid_type'', ''invalid_literal'', ''invalid_enum_value'',
                ''too_small'', ''too_big'', ''invalid_string''}"

lemma string_check_codes:
  "i \<in> set (string_check_issues F pa s c) \<Longrightarrow> issue_code i \<in> zod_codes"
  by (cases c) (auto simp: zod_codes_def split: if_splits)

lemma number_check_codes:
  "i \<in> set (number_check_issues pa n c) \<Longrightarrow> issue_code i \<in> zod_codes"
  by (cases c) (auto simp: zod_codes_def split: if_splits)

lemma issue_builder_codes [simp]:
  "issue_code (invalid_type pa e v) \<in> zod_codes"
  "issue_code (invalid_enum_value F pa opts v) \<in> zod_codes"
  "issue_code (invalid_literal pa lit v) \<in> zod_codes"
  by (simp_all add: invalid_type_def invalid_enum_value_def invalid_literal_def zod_codes_def)

lemma zparse_codes:
  "i \<in> set (snd (zparse F s pa v)) \<Longrightarrow> issue_code i \<in> zod_codes"
proof (induction F s pa v rule: zparse.induct)
  case (1 F checks pa v)
  then show ?case
    by (cases v) (auto simp: zparse.simps Let_def dest: string_check_codes)
next
  case (2 F checks pa v)
  then show ?case
    by (cases v) (auto simp: zparse.simps Let_def dest: number_check_codes split: if_splits)
next
  case (7 F elem pa v)
  show ?case
  proof (cases v)
    case (JArr xs)
    with "7.prems" obtain p where "p \<in> set (enumerate 0 xs)"
      "i \<in> set (snd (zparse F elem (pa @ [Index (fst p)]) (snd p)))"
      by (auto simp: zparse_ZArray)
    with "7.IH"[OF JArr this(1) prod.collapse] show ?thesis by simp
  qed (use "7.prems" in \<open>auto simp: zparse_not_array\<close>)
next
  case (8 F items pa v)
  show ?case
  proof (cases v)
    case (JArr xs)
    show ?thesis
    proof (cases "length xs < length items")
      case True
      with "8.prems" JArr show ?thesis by (auto simp: zparse.simps zod_codes_def)
    next
      case False
      with "8.prems" JArr have "issue_code i = ''too_big'' \<or>
        (\<exists>p\<in>set (enumerate 0 items). i \<in> set (snd (zparse F (snd p) (pa @ [Index (fst p)]) (xs ! fst p))))"
        by (auto simp: zparse.simps Let_def case_prod_unfold split: if_splits)
      then show ?thesis
      proof
        assume "issue_code i = ''too_big''"
        then show ?thesis by (simp add: zod_codes_def)
      next
        assume "\<exists>p\<in>set (enumerate 0 items). i \<in> set (snd (zparse F (snd p) (pa @ [Index (fst p)]) (xs ! fst p)))"
        then obtain p where p: "p \<in> set (enumerate 0 items)"
          "i \<in> set (snd (zparse F (snd p) (pa @ [Index (fst p)]) (xs ! fst p)))" by blast
        from "8.IH"[OF JArr False refl p(1) prod.collapse p(2)] show ?thesis .
      qed
    qed
  qed (use "8.prems" in \<open>auto simp: zparse.simps\<close>)
next
  case (9 F valueType pa v)
  show ?case
  proof (cases v)
    case (JObj kvs)
    with "9.prems" obtain p where "p \<in> set kvs"
      "i \<in> set (snd (zparse F valueType (pa @ [Key (fst p)]) (snd p)))"
      by (auto simp: zparse_ZRecord)
    with "9.IH"[OF JObj this(1) prod.collapse] show ?thesis by simp
  qed (use "9.prems" in \<open>auto simp: zparse_not_object\<close>)
next
  case (10 F shape pa v)
  show ?case
  proof (cases v)
    case (JObj kvs)
    with "10.prems" obtain p where "p \<in> set shape"
      "i \<in> set (snd (zparse F (snd p) (pa @ [Key (fst p)]) (field kvs (fst p))))"
      by (auto simp: zparse_ZObject)
    with "10.IH"[OF JObj this(1) prod.collapse] show ?thesis by simp
  qed (use "10.prems" in \<open>auto simp: zparse_not_object\<close>)
qed (auto simp: zparse.simps split: jsval.splits if_splits)

lemma parse_failure:
  "snd (zparse F schema [] v) \<noteq> [] \<Longrightarrow> parse F schema v = Inl (ZodError (snd (zparse F schema [] v)))"
  using parse_cases[of F schema v] zparse_OK_no_issues[of F schema "[]" v]
  by (auto simp: is_OK_conv)

definition issue_error :: "ZodIssue \<Rightarrow> ValidationError" where
  "issue_error err =
     \<lparr>code = issue_code err, message = issue_message err,
      path = Some (map path_string (issue_path err)),
      context = Some [(''received'', issue_received err), (''expected'', issue_expected err)]\<rparr>"

lemma parse_or_errors_failure:
  "snd (zparse F schema [] v) \<noteq> [] \<Longrightarrow>
   parse_or_errors F schema v = Inr (fail (map issue_error (snd (zparse F schema [] v))))"
  by (simp add: parse_or_errors_def parse_failure parseZodError_def issue_error_def)

lemma parse_or_errors_codes:
  "parse_or_errors F schema v = Inr r \<Longrightarrow> e \<in> set (error_list r) \<Longrightarrow> code e \<in> zod_codes"
  using parse_or_errors_cases[of F schema v] zparse_codes[of _ F schema "[]" v]
  by (auto simp: parseZodError_def)

lemma object_issues_mono:
  "(k, s) \<in> set shape \<Longrightarrow>
   set (snd (zparse F s (pa @ [Key k]) (field kvs k))) \<subseteq> set (snd (zparse F (ZObject shape) pa (JObj kvs)))"
  by (force simp: zparse_ZObject)

lemma array_issues_mono:
  "i < length xs \<Longrightarrow>
   set (snd (zparse F elem (pa @ [Index i]) (xs ! i))) \<subseteq> set (snd (zparse F (ZArray elem) pa (JArr xs)))"
proof -
  assume "i < length xs"
  then have "(i, xs ! i) \<in> set (enumerate 0 xs)" by (simp add: in_set_enumerate_eq)
  then show ?thesis by (force simp: zparse_ZArray)
qed

section \<open>The embedding validator\<close>

text \<open>The loop over the elements, in closed form, and the errors the validator collects.\<close>

lemma value_errors_closed:
  "value_errors n xs =
     map (\<lambda>i. value_error (n + i)) (filter (\<lambda>i. invalid_value (xs ! i)) [0..<length xs])"
proof (induction xs arbitrary: n)
  case Nil
  then show ?case by simp
next
  case (Cons v vs)
  have upt: "[0..<length (v # vs)] = 0 # map Suc [0..<length vs]"
    by (simp add: upt_conv_Cons map_Suc_upt del: upt_Suc)
  show ?case
    unfolding upt by (simp add: Cons.IH filter_map comp_def)
qed

lemma EmbeddingValidator_pushed:
  "pushed (EmbeddingValidator_validate (JArr xs)) =
     (if xs = [] then [empty_error] else [])
     @ (if length xs \<notin> set SUPPORTED_DIMENSIONS then [dimension_error (length xs)] else [])
     @ value_errors 0 xs"
  unfolding EmbeddingValidator_validate_def Let_def jsval.case pushed_if
  by simp

lemma EmbeddingValidator_result:
  "EmbeddingValidator_validate (JArr xs) =
     (if pushed (EmbeddingValidator_validate (JArr xs)) = [] then succeed (JArr xs)
      else fail (pushed (EmbeddingValidator_validate (JArr xs))))"
  unfolding EmbeddingValidator_pushed
  unfolding EmbeddingValidator_validate_def Let_def jsval.case
  by (simp split: if_splits)





section \<open>An embedding with a bad element\<close>

text \<open>
  Two entries with an embedding of length 400: one holds \<^verbatim>\<open>NaN\<close> at index 3, the other
  \<^verbatim>\<open>Infinity\<close>.
\<close>

lemma zparse_valid_numbers:
  "list_all valid_number xs \<Longrightarrow> zparse F (ZArray (ZNumber [])) pa (JArr xs) = (OK (JArr xs), [])"
proof -
  assume "list_all valid_number xs"
  then have "fst (zparse F (ZArray (ZNumber [])) pa (JArr xs)) = OK (JArr xs)"
    by (simp add: zparse_number_array_OK)
  with zparse_OK_no_issues[of F "ZArray (ZNumber [])" pa "JArr xs"] show ?thesis
    by (simp add: prod_eq_iff)
qed

lemma valid_replicate_no_issues:
  "valid_number v \<Longrightarrow>
   concat (map (\<lambda>(i, x). snd (zparse F (ZNumber []) (pa @ [Index i]) x)) (enumerate n (replicate k v))) = []"
  by (auto simp: in_set_enumerate_eq zparse.simps(2) valid_number_def split: jsval.splits)

definition nan_embedding :: "jsval list" where
  "nan_embedding = replicate 3 (JNum (Fin 0)) @ [JNum NaN] @ replicate 396 (JNum (Fin 0))"

definition nan_entry :: jsval where
  "nan_entry = JObj (envelope ''CommitDelta'' ''p'' ''b'' commit_content
                      @ [(''embedding'', JArr nan_embedding)])"

definition inf_embedding :: "jsval list" where
  "inf_embedding = replicate 3 (JNum (Fin 0)) @ [JNum PosInf] @ replicate 396 (JNum (Fin 0))"

definition inf_entry :: jsval where
  "inf_entry = JObj (envelope ''CommitDelta'' ''p'' ''b'' commit_content
                      @ [(''embedding'', JArr inf_embedding)])"

lemma nan_embedding_issues:
  "snd (zparse F (ZArray (ZNumber [])) pa (JArr nan_embedding)) =
     [invalid_type (pa @ [Index 3]) ''number'' (JNum NaN)]"
  by (simp add: zparse_ZArray nan_embedding_def enumerate_append_eq valid_replicate_no_issues
      valid_number_def) (simp add: zparse.simps(2))

lemma nan_entry_issues:
  "snd (zparse sample_platform MemoryEntrySchema [] nan_entry) =
     [invalid_type [Key ''embedding'', Index 3] ''number'' (JNum NaN)]"
  by (simp add: nan_entry_def zparse_ZObject MemoryEntrySchema_def MemoryEntryShape_def
      MemoryEntryType_def MemoryEntryStatus_def envelope_def field_def has_key_def
      commit_content_def zparse.simps(1-6,9,11,12) Let_def nan_embedding_issues
      sample_platform_def sample_uuid_test_def hex_char_def sample_datetime_test_def digit_def)

lemma nan_embedding_props: "length nan_embedding = 400 \<and> nan_embedding ! 3 = JNum NaN"
  by (simp add: nan_embedding_def nth_append)

text \<open>
  Claim C6, as stated, fails. An entry whose embedding of length 400 holds \<^verbatim>\<open>NaN\<close> at
  index 3 never reaches phase 2: \<^verbatim>\<open>z.number()\<close> of the envelope schema rejects \<^verbatim>\<open>NaN\<close>
  (its parsed type is \<^verbatim>\<open>nan\<close>), so phase 1 fails and \<open>validateMemoryEntry\<close> returns that
  one error, code \<^verbatim>\<open>invalid_type\<close> on the path \<^verbatim>\<open>embedding.3\<close>, and neither
  \<^verbatim>\<open>INVALID_DIMENSION\<close> nor \<^verbatim>\<open>INVALID_VALUE\<close>.
\<close>

theorem nan_embedding_rejected_by_phase1:
  "js_get nan_entry ''embedding'' = JArr nan_embedding
   \<and> length nan_embedding = 400 \<and> nan_embedding ! 3 = JNum NaN
   \<and> validateMemoryEntry sample_platform nan_entry =
       Inr (fail [\<lparr>code = ''invalid_type'',
                   message = ''Expected number, received nan'',
                   path = Some [''embedding'', ''3''],
                   context = Some [(''received'', JStr ''nan''), (''expected'', JStr ''number'')]\<rparr>])"
proof -
  have "validate sample_platform nan_entry =
     Inr (fail [issue_error (invalid_type [Key ''embedding'', Index 3] ''number'' (JNum NaN))])"
    by (simp add: validate_def parse_or_errors_failure nan_entry_issues)
  then have "validateMemoryEntry sample_platform nan_entry =
     Inr (fail [issue_error (invalid_type [Key ''embedding'', Index 3] ''number'' (JNum NaN))])"
    by (simp add: validateMemoryEntry_def validateTyped_def)
  moreover have "js_get nan_entry ''embedding'' = JArr nan_embedding"
    by (simp add: nan_entry_def js_get_def field_def envelope_def)
  ultimately show ?thesis
    using nan_embedding_props
    by (simp add: issue_error_def invalid_type_def getParsedType_def path_string_def sn_small)
qed

lemma nan_rejected:
  assumes "js_get entry ''embedding'' = JArr xs" and "i < length xs" and "xs ! i = JNum NaN"
  shows "\<exists>es. validate F entry = Inr (fail es) \<and> validateMemoryEntry F entry = Inr (fail es)
           \<and> (\<exists>e\<in>set es. code e = ''invalid_type'' \<and> path e = Some [''embedding'', string_of_nat i])
           \<and> (\<forall>e\<in>set es. code e \<in> zod_codes)"
proof -
  from assms(1) obtain kvs where e: "entry = JObj kvs" and f: "field kvs ''embedding'' = JArr xs"
    by (cases entry) (auto simp: js_get_def)
  let ?issue = "invalid_type [Key ''embedding'', Index i] ''number'' (JNum NaN)"
  let ?issues = "snd (zparse F MemoryEntrySchema [] entry)"
  have "?issue \<in> set (snd (zparse F (ZNumber []) ([Key ''embedding''] @ [Index i]) (xs ! i)))"
    by (simp add: assms(3) zparse.simps(2))
  with array_issues_mono[OF assms(2), of F "ZNumber []" "[Key ''embedding'']"]
  have "?issue \<in> set (snd (zparse F (ZOptional (ZArray (ZNumber []))) ([] @ [Key ''embedding'']) (field kvs ''embedding'')))"
    by (auto simp: f zparse.simps(11))
  with object_issues_mono[of "''embedding''" "ZOptional (ZArray (ZNumber []))" MemoryEntryShape F "[]" kvs]
  have mem: "?issue \<in> set ?issues"
    by (auto simp: e MemoryEntrySchema_def MemoryEntryShape_def)
  then have ne: "?issues \<noteq> []" by auto
  have v: "validate F entry = Inr (fail (map issue_error ?issues))"
    by (simp add: validate_def parse_or_errors_failure[OF ne])
  then have m: "validateMemoryEntry F entry = Inr (fail (map issue_error ?issues))"
    by (simp add: validateMemoryEntry_def validateTyped_def)
  have "issue_error ?issue \<in> set (map issue_error ?issues)" using mem by simp
  moreover have "code (issue_error ?issue) = ''invalid_type''"
    "path (issue_error ?issue) = Some [''embedding'', string_of_nat i]"
    by (simp_all add: issue_error_def invalid_type_def path_string_def)
  moreover have "\<forall>e\<in>set (map issue_error ?issues). code e \<in> zod_codes"
    using zparse_codes[of _ F MemoryEntrySchema "[]" entry] by (auto simp: issue_error_def)
  ultimately show ?thesis using v m by blast
qed

text \<open>
  Claim C6, amended. An entry whose embedding holds \<^verbatim>\<open>NaN\<close> fails phase 1 with an
  \<^verbatim>\<open>invalid_type\<close> error on the element's path and with no error of the embedding
  validator. For every entry that passes phase 1 and carries an embedding of length 400
  with \<^verbatim>\<open>Infinity\<close> or \<^verbatim>\<open>-Infinity\<close> at index 3, \<open>validateMemoryEntry\<close> fails with an
  \<^verbatim>\<open>INVALID_DIMENSION\<close> error and an \<^verbatim>\<open>INVALID_VALUE\<close> error of path \<^verbatim>\<open>["3"]\<close> in the same
  list (the entry is one whose content, as phase 1 returns it, holds no \<^verbatim>\<open>BigInt\<close>: a
  JSON-like content, which is what the specification takes the input to be; on the others
  phase 2 throws before it reaches the embedding, the matter of claim C3). The embedding
  validator itself, on any array, returns in one list an error for
  the empty array, an error for an unsupported length, and one error for each element
  that is not a finite number, in index order; called directly on an array of length 400
  with \<^verbatim>\<open>NaN\<close> at index 3 it reports both the dimension and the element.
\<close>

theorem embedding_errors_accumulate:
  "(js_get entry ''embedding'' = JArr xs \<and> i < length xs \<and> xs ! i = JNum NaN \<longrightarrow>
      (\<exists>es. validate F entry = Inr (fail es) \<and> validateMemoryEntry F entry = Inr (fail es)
         \<and> (\<exists>e\<in>set es. code e = ''invalid_type'' \<and> path e = Some [''embedding'', string_of_nat i])
         \<and> ''INVALID_DIMENSION'' \<notin> code ` set es \<and> ''INVALID_VALUE'' \<notin> code ` set es))
   \<and> (validateTyped F entry = Inr r \<and> success r \<and> js_get entry ''embedding'' = JArr xs
        \<and> length xs = 400 \<and> (xs ! 3 = JNum PosInf \<or> xs ! 3 = JNum NegInf)
        \<and> data r = Some validated \<and> \<not> has_bigint (js_get validated ''content'') \<longrightarrow>
      (\<exists>es d v. validateMemoryEntry F entry = Inr (fail es)
         \<and> d \<in> set es \<and> code d = ''INVALID_DIMENSION''
         \<and> v \<in> set es \<and> code v = ''INVALID_VALUE'' \<and> path v = Some [''3'']))
   \<and> error_list (EmbeddingValidator_validate (JArr ys)) =
        (if ys = [] then [empty_error] else [])
        @ (if length ys \<notin> {384, 512, 768, 1024, 1536} then [dimension_error (length ys)] else [])
        @ map value_error (filter (\<lambda>j. invalid_value (ys ! j)) [0..<length ys])
   \<and> (length ys = 400 \<and> ys ! 3 = JNum NaN \<longrightarrow>
        dimension_error 400 \<in> set (error_list (EmbeddingValidator_validate (JArr ys)))
        \<and> value_error 3 \<in> set (error_list (EmbeddingValidator_validate (JArr ys))))"
proof (intro conjI impI)
  assume a: "js_get entry ''embedding'' = JArr xs \<and> i < length xs \<and> xs ! i = JNum NaN"
  from nan_rejected[of entry xs i F] a obtain es where es: "validate F entry = Inr (fail es)"
    "validateMemoryEntry F entry = Inr (fail es)"
    "\<exists>e\<in>set es. code e = ''invalid_type'' \<and> path e = Some [''embedding'', string_of_nat i]"
    "\<forall>e\<in>set es. code e \<in> zod_codes" by blast
  from es(4) have "''INVALID_DIMENSION'' \<notin> code ` set es \<and> ''INVALID_VALUE'' \<notin> code ` set es"
    by (auto simp: zod_codes_def)
  with es show "\<exists>es. validate F entry = Inr (fail es) \<and> validateMemoryEntry F entry = Inr (fail es)
         \<and> (\<exists>e\<in>set es. code e = ''invalid_type'' \<and> path e = Some [''embedding'', string_of_nat i])
         \<and> ''INVALID_DIMENSION'' \<notin> code ` set es \<and> ''INVALID_VALUE'' \<notin> code ` set es"
    by blast
next
  assume a: "validateTyped F entry = Inr r \<and> success r \<and> js_get entry ''embedding'' = JArr xs
        \<and> length xs = 400 \<and> (xs ! 3 = JNum PosInf \<or> xs ! 3 = JNum NegInf)
        \<and> data r = Some validated \<and> \<not> has_bigint (js_get validated ''content'')"
  then have vt: "validateTyped F entry = Inr r" and s: "success r" by simp_all
  from phase1_fields[OF vt s] a obtain kvs x p b where e: "entry = JObj kvs"
    and r: "r = succeed (JObj x)" and p: "field x ''project'' = JStr p"
    and b: "field x ''branch'' = JStr b" and emb: "field x ''embedding'' = JArr xs"
    by (auto simp: js_get_def)
  from a r sizeInBytes_cases[of "field x ''content''" F]
  obtain n where n: "sizeInBytes F (field x ''content'') = Inr n"
    by (auto simp: js_get_def)
  let ?es = "phase2_errors p b n (field x ''content'') (field x ''embedding'')"
  from a have "invalid_value (xs ! 3)" "3 \<in> set [0..<length xs]"
    by (auto simp: invalid_value_def)
  then have "value_error 3 \<in> set (value_errors 0 xs)"
    by (auto simp: value_errors_closed)
  moreover from a have "dimension_error 400 \<in> set (pushed (EmbeddingValidator_validate (JArr xs)))"
    by (simp add: EmbeddingValidator_pushed SUPPORTED_DIMENSIONS_def)
  ultimately have mem: "dimension_error 400 \<in> set ?es" "value_error 3 \<in> set ?es"
    by (simp_all add: phase2_errors_def emb truthy_def EmbeddingValidator_pushed)
  then have "?es \<noteq> []" by auto
  with validateMemoryEntry_phase2[OF vt[unfolded r] p b n]
  have "validateMemoryEntry F entry = Inr (fail ?es)" by simp
  moreover have "code (dimension_error 400) = ''INVALID_DIMENSION''"
    "code (value_error 3) = ''INVALID_VALUE''" "path (value_error 3) = Some [''3'']"
    by (simp_all add: dimension_error_def simple_error_def value_error_def sn_small)
  ultimately show "\<exists>es d v. validateMemoryEntry F entry = Inr (fail es)
         \<and> d \<in> set es \<and> code d = ''INVALID_DIMENSION''
         \<and> v \<in> set es \<and> code v = ''INVALID_VALUE'' \<and> path v = Some [''3'']"
    using mem by blast
next
  have el: "error_list (EmbeddingValidator_validate (JArr ys)) = pushed (EmbeddingValidator_validate (JArr ys))"
    by (subst EmbeddingValidator_result) simp
  show closed: "error_list (EmbeddingValidator_validate (JArr ys)) =
        (if ys = [] then [empty_error] else [])
        @ (if length ys \<notin> {384, 512, 768, 1024, 1536} then [dimension_error (length ys)] else [])
        @ map value_error (filter (\<lambda>j. invalid_value (ys ! j)) [0..<length ys])"
    by (simp add: el EmbeddingValidator_pushed value_errors_closed SUPPORTED_DIMENSIONS_def)
  assume a: "length ys = 400 \<and> ys ! 3 = JNum NaN"
  then have "invalid_value (ys ! 3)" "3 \<in> set [0..<length ys]"
    by (auto simp: invalid_value_def)
  with a show "dimension_error 400 \<in> set (error_list (EmbeddingValidator_validate (JArr ys)))"
    "value_error 3 \<in> set (error_list (EmbeddingValidator_validate (JArr ys)))"
    unfolding closed by auto
qed

lemma inf_embedding_valid: "list_all valid_number inf_embedding"
  by (simp add: inf_embedding_def valid_number_def list_all_iff)

lemma validateTyped_inf_entry:
  "validateTyped sample_platform inf_entry = Inr (succeed inf_entry)"
  by (simp add: inf_entry_def commit_eval_defs zparse_valid_numbers[OF inf_embedding_valid])

theorem embedding_errors_accumulate_witness:
  "validateTyped sample_platform inf_entry = Inr (succeed inf_entry)
   \<and> js_get inf_entry ''embedding'' = JArr inf_embedding
   \<and> length inf_embedding = 400 \<and> inf_embedding ! 3 = JNum PosInf
   \<and> \<not> has_bigint (js_get inf_entry ''content'')
   \<and> (\<exists>es d v. validateMemoryEntry sample_platform inf_entry = Inr (fail es)
         \<and> d \<in> set es \<and> code d = ''INVALID_DIMENSION''
         \<and> v \<in> set es \<and> code v = ''INVALID_VALUE'' \<and> path v = Some [''3''])
   \<and> js_get nan_entry ''embedding'' = JArr nan_embedding
   \<and> length nan_embedding = 400 \<and> nan_embedding ! 3 = JNum NaN
   \<and> (\<exists>es. validate sample_platform nan_entry = Inr (fail es)
         \<and> validateMemoryEntry sample_platform nan_entry = Inr (fail es)
         \<and> ''INVALID_DIMENSION'' \<notin> code ` set es \<and> ''INVALID_VALUE'' \<notin> code ` set es)
   \<and> dimension_error 400 \<in> set (error_list (EmbeddingValidator_validate (JArr nan_embedding)))
   \<and> value_error 3 \<in> set (error_list (EmbeddingValidator_validate (JArr nan_embedding)))"
proof -
  have i1: "js_get inf_entry ''embedding'' = JArr inf_embedding"
    by (simp add: inf_entry_def js_get_def field_def envelope_def)
  have i2: "length inf_embedding = 400" "inf_embedding ! 3 = JNum PosInf"
    by (simp_all add: inf_embedding_def nth_append)
  have n1: "js_get nan_entry ''embedding'' = JArr nan_embedding"
    by (simp add: nan_entry_def js_get_def field_def envelope_def)
  have n2: "length nan_embedding = 400" "nan_embedding ! 3 = JNum NaN"
    by (simp_all add: nan_embedding_def nth_append)
  have i3: "\<not> has_bigint (js_get inf_entry ''content'')"
    by (simp add: inf_entry_def js_get_def field_def envelope_def commit_content_def)
  note inst = embedding_errors_accumulate[where entry = inf_entry and xs = inf_embedding
      and i = 3 and F = sample_platform and r = "succeed inf_entry" and validated = inf_entry
      and ys = nan_embedding]
  note inst' = embedding_errors_accumulate[where entry = nan_entry and xs = nan_embedding
      and i = 3 and F = sample_platform and r = "succeed nan_entry" and validated = nan_entry
      and ys = nan_embedding]
  from inst validateTyped_inf_entry i1 i2 i3
  have "\<exists>es d v. validateMemoryEntry sample_platform inf_entry = Inr (fail es)
         \<and> d \<in> set es \<and> code d = ''INVALID_DIMENSION''
         \<and> v \<in> set es \<and> code v = ''INVALID_VALUE'' \<and> path v = Some [''3'']"
    by simp
  moreover from inst' n1 n2
  have "\<exists>es. validate sample_platform nan_entry = Inr (fail es)
         \<and> validateMemoryEntry sample_platform nan_entry = Inr (fail es)
         \<and> ''INVALID_DIMENSION'' \<notin> code ` set es \<and> ''INVALID_VALUE'' \<notin> code ` set es"
    by simp blast
  moreover from inst' n2
  have "dimension_error 400 \<in> set (error_list (EmbeddingValidator_validate (JArr nan_embedding)))
      \<and> value_error 3 \<in> set (error_list (EmbeddingValidator_validate (JArr nan_embedding)))"
    by blast
  ultimately show ?thesis using validateTyped_inf_entry i1 i2 i3 n1 n2 by simp
qed

section \<open>The validators are total\<close>

definition well_formed :: "'a ValidationResult \<Rightarrow> bool" where
  "well_formed r =
     (if success r then data r \<noteq> None
      else (case errors r of Some es \<Rightarrow> es \<noteq> [] | None \<Rightarrow> False))"

lemma well_formed_simps [simp]:
  "well_formed (succeed x)" "well_formed (fail es) \<longleftrightarrow> es \<noteq> []"
  by (simp_all add: well_formed_def)


lemma parse_or_errors_total:
  "\<exists>r. parse_or_errors F schema v = Inr r \<and> well_formed r"
  using parse_or_errors_cases[of F schema v] by auto

lemma validateByType_total:
  "\<exists>r. validateByType F (JObj kvs) = Inr r \<and> well_formed r"
proof (cases "js_get (JObj kvs) ''type'' \<in> JStr ` set MemoryEntryType")
  case False
  from validateByType_unknown[OF refl False, of F] show ?thesis by simp
next
  case True
  then obtain T C where TC: "(T, C) \<in> set variants" "js_get (JObj kvs) ''type'' = JStr T"
    by (auto simp: MemoryEntryType_def variants_def)
  from validateByType_variant[OF TC, of F] parse_or_errors_total show ?thesis by simp
qed

lemma validateTyped_total:
  "\<exists>r. validateTyped F entry = Inr r \<and> well_formed r"
proof -
  from parse_or_errors_total obtain b where b: "validate F entry = Inr b" "well_formed b"
    unfolding validate_def by blast
  show ?thesis
  proof (cases "success b")
    case False
    with b show ?thesis by (simp add: validateTyped_def)
  next
    case True
    from validate_success[OF b(1) True] obtain out where "b = succeed (JObj out)" by blast
    with b validateByType_total[of F out] show ?thesis
      by (simp add: validateTyped_def no_data_def truthy_def)
  qed
qed





lemma validateMemoryEntry_cases:
  "(\<exists>r. validateTyped F entry = Inr r \<and> \<not> success r \<and> validateMemoryEntry F entry = Inr r)
   \<or> (\<exists>x p b c. validateTyped F entry = Inr (succeed (JObj x))
         \<and> field x ''project'' = JStr p \<and> field x ''branch'' = JStr b
         \<and> field x ''content'' = JObj c
         \<and> ((has_bigint (JObj c) \<and> validateMemoryEntry F entry = Inl bigint_error)
            \<or> (\<exists>n. sizeInBytes F (JObj c) = Inr n \<and> \<not> has_bigint (JObj c)
                 \<and> validateMemoryEntry F entry =
                     (if phase2_errors p b n (JObj c) (field x ''embedding'') \<noteq> []
                      then Inr (fail (phase2_errors p b n (JObj c) (field x ''embedding'')))
                      else Inr (succeed (JObj x))))))"
proof -
  from validateTyped_total obtain r where r: "validateTyped F entry = Inr r" by blast
  show ?thesis
  proof (cases "success r")
    case False
    with r show ?thesis by (simp add: validateMemoryEntry_def)
  next
    case True
    from phase1_fields[OF r True] obtain x p b c where x: "r = succeed (JObj x)"
      "field x ''project'' = JStr p" "field x ''branch'' = JStr b" "field x ''content'' = JObj c"
      by blast
    have "(has_bigint (JObj c) \<and> validateMemoryEntry F entry = Inl bigint_error)
            \<or> (\<exists>n. sizeInBytes F (JObj c) = Inr n \<and> \<not> has_bigint (JObj c)
                 \<and> validateMemoryEntry F entry =
                     (if phase2_errors p b n (JObj c) (field x ''embedding'') \<noteq> []
                      then Inr (fail (phase2_errors p b n (JObj c) (field x ''embedding'')))
                      else Inr (succeed (JObj x))))"
      using sizeInBytes_cases[of "JObj c" F]
    proof
      assume a: "has_bigint (JObj c) \<and> sizeInBytes F (JObj c) = Inl bigint_error"
      then have "sizeInBytes F (field x ''content'') = Inl bigint_error"
        by (simp only: x(4))
      from validateMemoryEntry_throws[OF r[unfolded x(1)] x(2,3) this] a
      show ?thesis by blast
    next
      assume "\<not> has_bigint (JObj c) \<and> (\<exists>n. sizeInBytes F (JObj c) = Inr n)"
      then obtain n where n: "sizeInBytes F (JObj c) = Inr n" "\<not> has_bigint (JObj c)" by blast
      from n(1) have "sizeInBytes F (field x ''content'') = Inr n"
        by (simp only: x(4))
      from validateMemoryEntry_phase2[OF r[unfolded x(1)] x(2,3) this]
      have "validateMemoryEntry F entry =
                     (if phase2_errors p b n (JObj c) (field x ''embedding'') \<noteq> []
                      then Inr (fail (phase2_errors p b n (JObj c) (field x ''embedding'')))
                      else Inr (succeed (JObj x)))"
        by (simp only: x(4))
      with n show ?thesis by blast
    qed
    with r[unfolded x(1)] x(2,3,4) show ?thesis by blast
  qed
qed






section \<open>Size of the content\<close>

text \<open>Sizes of concrete \<^verbatim>\<open>CommitDelta\<close> contents, with a long message or a key the schema
  does not declare.\<close>

lemma utf8_length_simps:
  "utf8_length [] = 0"
  "utf8_length (c # cs) = (if (of_char c :: nat) < 128 then 1 else 2) + utf8_length cs"
  "utf8_length (xs @ ys) = utf8_length xs + utf8_length ys"
  by (simp_all add: utf8_length_def)

lemma utf8_length_replicate:
  "utf8_length (replicate n c) = n * (if (of_char c :: nat) < 128 then 1 else 2)"
  by (induction n) (simp_all add: utf8_length_def)

lemma concat_replicate_single: "concat (replicate n [c]) = replicate n c"
  by (induction n) simp_all

lemma json_escape_a: "json_escape CHR ''a'' = ''a''"
  by (simp add: json_escape_def)

lemma JSON_quote_replicate_a:
  "JSON_quote (replicate n CHR ''a'') = [CHR 0x22] @ replicate n CHR ''a'' @ [CHR 0x22]"
  by (simp add: JSON_quote_def json_escape_a concat_replicate_single)

definition commit_with :: "string \<Rightarrow> (string \<times> jsval) list \<Rightarrow> jsval" where
  "commit_with msg extra =
     JObj ([(''commitHash'', JStr ''abc123''),
            (''message'', JStr msg),
            (''author'', JObj [(''name'', JStr ''n''), (''email'', JStr ''e'')]),
            (''files'', JArr [])] @ extra)"

definition commit_entry :: "string \<Rightarrow> (string \<times> jsval) list \<Rightarrow> jsval" where
  "commit_entry msg extra = JObj (envelope ''CommitDelta'' ''p'' ''b'' (commit_with msg extra))"

lemma validateTyped_commit_entry:
  "validateTyped sample_platform (commit_entry msg []) = Inr (succeed (commit_entry msg []))"
  "validateTyped sample_platform (commit_entry msg [(''junk'', v)]) = Inr (succeed (commit_entry msg []))"
  by (simp_all add: commit_entry_def commit_with_def commit_eval_defs)

lemma sizeInBytes_commit:
  "sizeInBytes F (commit_with (replicate n CHR ''a'') []) = Inr (81 + n)"
  "sizeInBytes F (commit_with ''m'' [(''junk'', JStr (replicate n CHR ''a''))]) = Inr (92 + n)"
  "sizeInBytes F (commit_with ''m'' []) = Inr 82"
  unfolding sizeInBytes_def commit_with_def
  by (simp_all add: JSON_quote_replicate_a utf8_length_simps utf8_length_replicate)
    (simp_all add: JSON_quote_def json_escape_def utf8_length_simps)

section \<open>Error codes\<close>

lemma ProjectValidator_pushed:
  "pushed (ProjectValidator_validate p) =
     (if length p < 1
      then [simple_error ''TOO_SHORT'' ''Project name must be at least 1 character(s)''] else [])
     @ (if length p > 100
        then [simple_error ''TOO_LONG'' ''Project name must be at most 100 characters''] else [])
     @ (if \<not> PROJECT_NAME_REGEX_test p
        then [simple_error ''INVALID_FORMAT''
                ''Project name can only contain letters, numbers, underscores, and hyphens'']
        else [])"
  unfolding ProjectValidator_validate_def Let_def pushed_if
  by (simp add: sn_small)

definition phase2_codes :: "string set" where
  "phase2_codes = {''TOO_SHORT'', ''TOO_LONG'', ''INVALID_FORMAT'', ''CONTENT_TOO_LARGE'',
                   ''INVALID_TYPE'', ''EMPTY_EMBEDDING'', ''INVALID_DIMENSION'', ''INVALID_VALUE''}"

lemma value_errors_codes: "e \<in> set (value_errors n xs) \<Longrightarrow> code e = ''INVALID_VALUE''"
  by (auto simp: value_errors_closed value_error_def)

lemma EmbeddingValidator_codes:
  "e \<in> set (pushed (EmbeddingValidator_validate v)) \<Longrightarrow>
   code e \<in> {''INVALID_TYPE'', ''EMPTY_EMBEDDING'', ''INVALID_DIMENSION'', ''INVALID_VALUE''}"
proof (cases v)
  case (JArr xs)
  assume "e \<in> set (pushed (EmbeddingValidator_validate v))"
  with JArr show ?thesis
    by (auto simp: EmbeddingValidator_pushed empty_error_def dimension_error_def simple_error_def
        dest: value_errors_codes split: if_splits)
qed (auto simp: EmbeddingValidator_validate_def simple_error_def)

lemma phase2_errors_codes:
  "e \<in> set (phase2_errors p b n (JObj c) emb) \<Longrightarrow> code e \<in> phase2_codes"
  unfolding phase2_errors_def phase2_codes_def
  by (auto simp: ProjectValidator_pushed BranchValidator_pushed
      simple_error_def branch_too_short_def branch_too_long_def branch_bad_format_def
      slash_error_def consecutive_slashes_error_def too_large_error_def
      dest!: EmbeddingValidator_codes split: if_splits)

lemma validateByType_codes:
  "validateByType F (JObj kvs) = Inr r \<Longrightarrow> e \<in> set (error_list r) \<Longrightarrow>
   code e \<in> zod_codes \<union> {''INVALID_TYPE''}"
proof (cases "js_get (JObj kvs) ''type'' \<in> JStr ` set MemoryEntryType")
  case False
  assume "validateByType F (JObj kvs) = Inr r" "e \<in> set (error_list r)"
  with validateByType_unknown[OF refl False, of F] show ?thesis by auto
next
  case True
  assume a: "validateByType F (JObj kvs) = Inr r" "e \<in> set (error_list r)"
  from True obtain T C where TC: "(T, C) \<in> set variants" "js_get (JObj kvs) ''type'' = JStr T"
    by (auto simp: MemoryEntryType_def variants_def)
  from validateByType_variant[OF TC, of F] a parse_or_errors_codes[of F _ "JObj kvs" r e]
  show ?thesis by simp
qed

lemma phase1_failure_codes:
  assumes "validateTyped F entry = Inr r" "\<not> success r" "e \<in> set (error_list r)"
  shows "code e \<in> zod_codes \<union> {''INVALID_TYPE''}"
proof -
  from assms(1) obtain b where b: "validate F entry = Inr b"
    by (auto simp: validateTyped_def split: sum.splits)
  show ?thesis
  proof (cases "success b")
    case False
    with b assms have "parse_or_errors F MemoryEntrySchema entry = Inr r"
      by (simp add: validateTyped_def validate_def)
    from parse_or_errors_codes[OF this assms(3)] show ?thesis by simp
  next
    case True
    from validate_success[OF b True] obtain out where "b = succeed (JObj out)" by blast
    with b assms have "validateByType F (JObj out) = Inr r"
      by (simp add: validateTyped_def no_data_def truthy_def)
    from validateByType_codes[OF this assms(3)] show ?thesis .
  qed
qed

text \<open>
  Claim C9. \<open>ContentSizeValidator_validate\<close> reports \<^verbatim>\<open>STRING_TOO_LONG\<close> exactly when the
  content is itself a string of more than 100,000 characters, so never for a string
  nested in an object; and no result of \<open>validateMemoryEntry\<close> holds a
  \<^verbatim>\<open>STRING_TOO_LONG\<close> error, since the content phase 1 returns is an object. The witness is
  an entry whose content holds a string of 100,001 characters: it is accepted.
\<close>

theorem string_too_long_unreachable:
  "((\<exists>cr. ContentSizeValidator_validate F content_v = Inr cr
          \<and> ''STRING_TOO_LONG'' \<in> code ` set (error_list cr))
      \<longleftrightarrow> (\<exists>s. content_v = JStr s \<and> length s > 100000))
   \<and> (validateMemoryEntry F entry = Inr r \<longrightarrow>
        ''STRING_TOO_LONG'' \<notin> code ` set (error_list r))"
proof (intro conjI impI)
  show "(\<exists>cr. ContentSizeValidator_validate F content_v = Inr cr
          \<and> ''STRING_TOO_LONG'' \<in> code ` set (error_list cr))
      \<longleftrightarrow> (\<exists>s. content_v = JStr s \<and> length s > 100000)"
  proof (cases "has_bigint content_v")
    case True
    with sizeInBytes_cases[of content_v F]
    have "ContentSizeValidator_validate F content_v = Inl bigint_error"
      by (auto simp: ContentSizeValidator_throws)
    moreover from True have "\<forall>s. content_v \<noteq> JStr s" by auto
    ultimately show ?thesis by simp
  next
    case False
    with sizeInBytes_cases[of content_v F] obtain n where "sizeInBytes F content_v = Inr n"
      by auto
    from ContentSizeValidator_result[OF this] show ?thesis
      by (cases content_v)
        (auto simp: error_list_pushed content_errors_def too_large_error_def
          string_too_long_error_def simple_error_def MAX_STRING_LENGTH_def)
  qed
next
  assume a: "validateMemoryEntry F entry = Inr r"
  from validateMemoryEntry_cases[of F entry]
  show "''STRING_TOO_LONG'' \<notin> code ` set (error_list r)"
  proof
    assume "\<exists>r. validateTyped F entry = Inr r \<and> \<not> success r \<and> validateMemoryEntry F entry = Inr r"
    with a have "validateTyped F entry = Inr r" "\<not> success r" by auto
    from phase1_failure_codes[OF this]
    have "''STRING_TOO_LONG'' \<noteq> code e" if "e \<in> set (error_list r)" for e
      using that by (fastforce simp: zod_codes_def)
    then show ?thesis by auto
  next
    assume "\<exists>x p b c. validateTyped F entry = Inr (succeed (JObj x))
         \<and> field x ''project'' = JStr p \<and> field x ''branch'' = JStr b
         \<and> field x ''content'' = JObj c
         \<and> ((has_bigint (JObj c) \<and> validateMemoryEntry F entry = Inl bigint_error)
            \<or> (\<exists>n. sizeInBytes F (JObj c) = Inr n \<and> \<not> has_bigint (JObj c)
                 \<and> validateMemoryEntry F entry =
                     (if phase2_errors p b n (JObj c) (field x ''embedding'') \<noteq> []
                      then Inr (fail (phase2_errors p b n (JObj c) (field x ''embedding'')))
                      else Inr (succeed (JObj x)))))"
    with a obtain x p b c n where
      "validateMemoryEntry F entry =
             (if phase2_errors p b n (JObj c) (field x ''embedding'') \<noteq> []
              then Inr (fail (phase2_errors p b n (JObj c) (field x ''embedding'')))
              else Inr (succeed (JObj x)))" by auto
    with a have "error_list r = phase2_errors p b n (JObj c) (field x ''embedding'')"
      by (auto split: if_splits)
    with phase2_errors_codes[of _ p b n c "field x ''embedding''"]
    have "''STRING_TOO_LONG'' \<noteq> code e" if "e \<in> set (error_list r)" for e
      using that by (fastforce simp: phase2_codes_def)
    then show ?thesis by auto
  qed
qed

lemma validateMemoryEntry_long_message:
  "validateMemoryEntry sample_platform (commit_entry (replicate 100001 CHR ''a'') []) =
     Inr (succeed (commit_entry (replicate 100001 CHR ''a'') []))"
proof -
  have x: "commit_entry (replicate 100001 CHR ''a'') [] =
     JObj (envelope ''CommitDelta'' ''p'' ''b'' (commit_with (replicate 100001 CHR ''a'') []))"
    by (simp add: commit_entry_def)
  have size: "sizeInBytes sample_platform
      (field (envelope ''CommitDelta'' ''p'' ''b'' (commit_with (replicate 100001 CHR ''a'') [])) ''content'')
      = Inr 100082"
    by (simp add: field_def envelope_def sizeInBytes_commit)
  have "phase2_errors ''p'' ''b'' 100082 (commit_with (replicate 100001 CHR ''a'') []) JUndefined = []"
    by (simp add: phase2_errors_def ProjectValidator_pushed BranchValidator_pushed
        MAX_CONTENT_SIZE_def truthy_def
        PROJECT_NAME_REGEX_test_def project_name_char_def BRANCH_NAME_REGEX_test_def
        branch_name_char_def startsWith_def endsWith_def commit_with_def)
  with validateMemoryEntry_phase2[OF validateTyped_commit_entry(1)[of "replicate 100001 CHR ''a''", unfolded x] _ _ size, of "''p''" "''b''"]
  show ?thesis by (simp add: x field_def envelope_def)
qed

theorem string_too_long_unreachable_witness:
  "validateMemoryEntry sample_platform (commit_entry (replicate 100001 CHR ''a'') []) =
     Inr (succeed (commit_entry (replicate 100001 CHR ''a'') []))
   \<and> ''STRING_TOO_LONG'' \<notin> code ` set (error_list
         (succeed (commit_entry (replicate 100001 CHR ''a'') []) :: jsval ValidationResult))
   \<and> (\<exists>cr. ContentSizeValidator_validate sample_platform (JStr (replicate 100001 CHR ''a'')) = Inr cr
          \<and> ''STRING_TOO_LONG'' \<in> code ` set (error_list cr))"
  using string_too_long_unreachable[of sample_platform "JStr (replicate 100001 CHR ''a'')"
      "commit_entry (replicate 100001 CHR ''a'') []"
      "succeed (commit_entry (replicate 100001 CHR ''a'') [])"]
    validateMemoryEntry_long_message
  by simp

section \<open>Content that is too large\<close>

text \<open>
  Claim C8, amended. The content that \<open>ContentSizeValidator_validate\<close> measures is the
  content of the entry phase 1 returns, in which the variant's schema has kept only the
  fields it declares. For every entry that passes phase 1 and whose content, as phase 1
  returns it, serializes to \<open>n\<close> bytes, \<open>validateMemoryEntry\<close> reports \<^verbatim>\<open>CONTENT_TOO_LARGE\<close>
  exactly when \<open>n\<close> is more than 1,048,576, and then it returns a failure. (The model is a
  function: the same entry gives the same result every time.)
\<close>

theorem oversized_validated_content_rejected:
  assumes "validateTyped F entry = Inr r" and "success r" and "data r = Some d"
    and "sizeInBytes F (js_get d ''content'') = Inr n"
  shows "(\<exists>r'. validateMemoryEntry F entry = Inr r'
            \<and> (''CONTENT_TOO_LARGE'' \<in> code ` set (error_list r') \<longleftrightarrow> n > 1048576))
    \<and> (n > 1048576 \<longrightarrow>
         (\<exists>es. validateMemoryEntry F entry = Inr (fail es)
            \<and> ''CONTENT_TOO_LARGE'' \<in> code ` set es))"
proof -
  from phase1_fields[OF assms(1,2)] assms(3) obtain x p b c where r: "r = succeed (JObj x)"
    and d: "d = JObj x" and p: "field x ''project'' = JStr p"
    and b: "field x ''branch'' = JStr b" and c: "field x ''content'' = JObj c"
    by auto
  let ?es = "phase2_errors p b n (JObj c) (field x ''embedding'')"
  have dc: "js_get d ''content'' = JObj c" by (simp add: d js_get_def c)
  have codes: "''CONTENT_TOO_LARGE'' \<in> code ` set ?es \<longleftrightarrow> n > 1048576"
  proof
    assume "''CONTENT_TOO_LARGE'' \<in> code ` set ?es"
    then show "n > 1048576"
      unfolding phase2_errors_def
      by (auto simp: ProjectValidator_pushed BranchValidator_pushed
          simple_error_def branch_too_short_def branch_too_long_def branch_bad_format_def
          slash_error_def consecutive_slashes_error_def too_large_error_def MAX_CONTENT_SIZE_def
          dest!: EmbeddingValidator_codes split: if_splits)
  next
    assume "n > 1048576"
    then have "too_large_error n \<in> set ?es"
      by (simp add: phase2_errors_def MAX_CONTENT_SIZE_def)
    moreover have "code (too_large_error n) = ''CONTENT_TOO_LARGE''"
      by (simp add: too_large_error_def simple_error_def)
    ultimately show "''CONTENT_TOO_LARGE'' \<in> code ` set ?es"
      by (metis imageI)
  qed
  from assms(4) dc c have size: "sizeInBytes F (field x ''content'') = Inr n" by simp
  from validateMemoryEntry_phase2[OF assms(1)[unfolded r] p b size] c
  have m: "validateMemoryEntry F entry = (if ?es \<noteq> [] then Inr (fail ?es) else Inr (succeed (JObj x)))"
    by simp
  have 1: "\<exists>r'. validateMemoryEntry F entry = Inr r'
            \<and> (''CONTENT_TOO_LARGE'' \<in> code ` set (error_list r') \<longleftrightarrow> n > 1048576)"
  proof (cases "?es = []")
    case True
    with m codes show ?thesis by auto
  next
    case False
    with m codes show ?thesis by auto
  qed
  have 2: "\<exists>es. validateMemoryEntry F entry = Inr (fail es) \<and> ''CONTENT_TOO_LARGE'' \<in> code ` set es"
    if "n > 1048576"
  proof -
    from that codes have "''CONTENT_TOO_LARGE'' \<in> code ` set ?es" by simp
    moreover from this have "?es \<noteq> []" by auto
    ultimately show ?thesis using m by auto
  qed
  from 1 2 show ?thesis by blast
qed

theorem oversized_validated_content_rejected_witness:
  "validateTyped sample_platform (commit_entry (replicate 1048576 CHR ''a'') []) =
     Inr (succeed (commit_entry (replicate 1048576 CHR ''a'') []))
   \<and> sizeInBytes sample_platform
        (js_get (commit_entry (replicate 1048576 CHR ''a'') []) ''content'') = Inr 1048657
   \<and> (\<exists>es. validateMemoryEntry sample_platform (commit_entry (replicate 1048576 CHR ''a'') []) =
          Inr (fail es) \<and> ''CONTENT_TOO_LARGE'' \<in> code ` set es)"
proof -
  let ?e = "commit_entry (replicate 1048576 CHR ''a'') []"
  have c: "js_get ?e ''content'' = commit_with (replicate 1048576 CHR ''a'') []"
    by (simp add: commit_entry_def js_get_def field_def envelope_def)
  have s: "sizeInBytes sample_platform (js_get ?e ''content'') = Inr 1048657"
    by (simp add: c sizeInBytes_commit)
  from oversized_validated_content_rejected[OF validateTyped_commit_entry(1) _ _ s]
  show ?thesis using validateTyped_commit_entry(1) s by simp
qed

lemma validateMemoryEntry_junk:
  "validateMemoryEntry sample_platform (commit_entry ''m'' [(''junk'', v)]) =
     Inr (succeed (commit_entry ''m'' []))"
proof -
  have x: "commit_entry ''m'' [] = JObj (envelope ''CommitDelta'' ''p'' ''b'' (commit_with ''m'' []))"
    by (simp add: commit_entry_def)
  have small: "sizeInBytes sample_platform
      (field (envelope ''CommitDelta'' ''p'' ''b'' (commit_with ''m'' [])) ''content'') = Inr 82"
    by (simp add: field_def envelope_def sizeInBytes_commit)
  have "phase2_errors ''p'' ''b'' 82 (commit_with ''m'' []) JUndefined = []"
    by (simp add: phase2_errors_def ProjectValidator_pushed BranchValidator_pushed
        MAX_CONTENT_SIZE_def truthy_def
        PROJECT_NAME_REGEX_test_def project_name_char_def BRANCH_NAME_REGEX_test_def
        branch_name_char_def startsWith_def endsWith_def commit_with_def)
  with validateMemoryEntry_phase2[OF validateTyped_commit_entry(2)[of "''m''" v, unfolded x] _ _ small, of "''p''" "''b''"]
  show ?thesis by (simp add: x field_def envelope_def)
qed

text \<open>
  Claim C8, as stated, fails. The content of this entry serializes to 1,048,668 bytes,
  most of them under the key \<^verbatim>\<open>junk\<close>, which the \<^verbatim>\<open>CommitDelta\<close> content schema does not
  declare. The entry passes phase 1, which drops the key, and \<open>validateMemoryEntry\<close>
  accepts it with no \<^verbatim>\<open>CONTENT_TOO_LARGE\<close> error.
\<close>

theorem stripped_oversized_content_accepted:
  "validateTyped sample_platform (commit_entry ''m'' [(''junk'', JStr (replicate 1048576 CHR ''a''))]) =
     Inr (succeed (commit_entry ''m'' []))
   \<and> sizeInBytes sample_platform
        (js_get (commit_entry ''m'' [(''junk'', JStr (replicate 1048576 CHR ''a''))]) ''content'')
       = Inr 1048668
   \<and> validateMemoryEntry sample_platform
        (commit_entry ''m'' [(''junk'', JStr (replicate 1048576 CHR ''a''))]) =
       Inr (succeed (commit_entry ''m'' []))"
proof -
  let ?e = "commit_entry ''m'' [(''junk'', JStr (replicate 1048576 CHR ''a''))]"
  have c: "js_get ?e ''content'' = commit_with ''m'' [(''junk'', JStr (replicate 1048576 CHR ''a''))]"
    by (simp add: commit_entry_def js_get_def field_def envelope_def)
  have s: "sizeInBytes sample_platform (js_get ?e ''content'') = Inr 1048668"
    by (simp add: c sizeInBytes_commit)
  with validateMemoryEntry_junk validateTyped_commit_entry(2) show ?thesis by simp
qed

section \<open>An unknown type\<close>

definition envelope_shaped_apart_from_type :: "platform \<Rightarrow> (string \<times> jsval) list \<Rightarrow> bool" where
  "envelope_shaped_apart_from_type F kvs =
     list_all (\<lambda>(k, s). k = ''type'' \<or> is_OK (fst (zparse F s [Key k] (field kvs k))))
       MemoryEntryShape"

text \<open>The two errors \<^verbatim>\<open>parseZodError\<close> makes of the issues of \<^verbatim>\<open>z.nativeEnum\<close> on the path
  \<^verbatim>\<open>["type"]\<close>: the one for a string or a number names the value, the one for a value of
  another kind names the kind.\<close>

definition enum_value_error :: "platform \<Rightarrow> jsval \<Rightarrow> ValidationError" where
  "enum_value_error F v =
     \<lparr>code = ''invalid_enum_value'',
      message = ''Invalid enum value. Expected '' @ joinValues MemoryEntryType
        @ '', received '' @ [CHR 0x27] @ js_toString F v @ [CHR 0x27],
      path = Some [''type''],
      context = Some [(''received'', v), (''expected'', JUndefined)]\<rparr>"

definition enum_type_error :: "jsval \<Rightarrow> ValidationError" where
  "enum_type_error v =
     \<lparr>code = ''invalid_type'',
      message = (if getParsedType v = ''undefined'' then ''Required''
                 else ''Expected '' @ joinValues MemoryEntryType
                        @ '', received '' @ getParsedType v),
      path = Some [''type''],
      context = Some [(''received'', JStr (getParsedType v)),
                      (''expected'', JStr (joinValues MemoryEntryType))]\<rparr>"

lemma nativeEnum_unknown:
  assumes "v \<notin> JStr ` set values"
  shows "snd (zparse F (ZNativeEnum values) pa v) =
           [if getParsedType v = ''string'' \<or> getParsedType v = ''number''
            then invalid_enum_value F pa values v
            else invalid_type pa (joinValues values) v]"
  using assms
  by (cases v) (auto simp: zparse.simps(6) getParsedType_def)

lemma nativeEnum_OK:
  "fst (zparse F (ZNativeEnum values) pa v) = OK y \<Longrightarrow> y \<in> JStr ` set values"
  by (cases v) (auto simp: zparse.simps(6) split: if_splits)

lemma validate_type_known:
  assumes "validate F entry = Inr b" and "success b" and "data b = Some d"
  shows "js_get d ''type'' \<in> JStr ` set MemoryEntryType"
proof -
  from validate_success[OF assms(1,2)] assms(3) obtain kvs out where e: "entry = JObj kvs"
    and d: "d = JObj out"
    and z: "fst (zparse F MemoryEntrySchema [] entry) = OK (JObj out)"
    by auto
  from object_field[OF z[unfolded MemoryEntrySchema_def] MemoryEntryShape_distinct,
      of "''type''" "ZNativeEnum MemoryEntryType"]
  have "fst (zparse F (ZNativeEnum MemoryEntryType) [Key ''type''] (field kvs ''type''))
          = OK (js_get (JObj out) ''type'')"
    using e by (simp add: MemoryEntryShape_def)
  from nativeEnum_OK[OF this] d show ?thesis by simp
qed

definition boolean_type_entry :: "bool \<Rightarrow> jsval" where
  "boolean_type_entry flag =
     JObj [(''id'', JStr ''123e4567-e89b-12d3-a456-426614174000''),
           (''type'', JBool flag),
           (''project'', JStr ''p''),
           (''taskId'', JNull),
           (''branch'', JStr ''b''),
           (''timestamp'', JStr ''2024-01-15T10:30:00Z''),
           (''status'', JStr ''draft''),
           (''content'', JObj [])]"

lemma validateMemoryEntry_boolean_type:
  "validateMemoryEntry sample_platform (boolean_type_entry flag) =
     Inr (fail [\<lparr>code = ''invalid_type'',
                 message = ''Expected '' @ joinValues MemoryEntryType @ '', received boolean'',
                 path = Some [''type''],
                 context = Some [(''received'', JStr ''boolean''),
                                 (''expected'', JStr (joinValues MemoryEntryType))]\<rparr>])"
  by (simp add: boolean_type_entry_def validateMemoryEntry_def validateTyped_def validate_def
      no_data_def fail_def succeed_def eval_defs)

text \<open>
  Claim C2, as stated, fails. The candidate is envelope-shaped but for its \<^verbatim>\<open>type\<close>, the
  boolean \<^verbatim>\<open>true\<close>. The one error returned, on the path \<^verbatim>\<open>["type"]\<close>, is the
  \<^verbatim>\<open>invalid_type\<close> error of the envelope schema: its message and its context give the kind
  of the value, \<^verbatim>\<open>boolean\<close>, and not the value; the candidate with the type \<^verbatim>\<open>false\<close> gets
  the very same result.
\<close>

theorem boolean_type_not_named:
  "js_get (boolean_type_entry True) ''type'' = JBool True
   \<and> validateMemoryEntry sample_platform (boolean_type_entry True) =
       Inr (fail [\<lparr>code = ''invalid_type'',
                   message = ''Expected '' @ joinValues MemoryEntryType @ '', received boolean'',
                   path = Some [''type''],
                   context = Some [(''received'', JStr ''boolean''),
                                   (''expected'', JStr (joinValues MemoryEntryType))]\<rparr>])
   \<and> js_get (boolean_type_entry False) ''type'' = JBool False
   \<and> validateMemoryEntry sample_platform (boolean_type_entry False) =
       validateMemoryEntry sample_platform (boolean_type_entry True)"
  using validateMemoryEntry_boolean_type[of True] validateMemoryEntry_boolean_type[of False]
  by (simp add: boolean_type_entry_def js_get_def field_def)

text \<open>
  Claim C2, amended. A candidate whose \<^verbatim>\<open>type\<close> is not one of the five discriminants, and
  whose other envelope fields pass the envelope schema (the content is any object: the
  envelope schema takes every map), fails with exactly one error, on the path
  \<^verbatim>\<open>["type"]\<close>. It is the error of the envelope's \<^verbatim>\<open>nativeEnum\<close>, returned by the structural
  phase \<open>validate\<close> before any dispatch, so that no field validator and no content schema
  contributes. When the type is a string or a number other than \<^verbatim>\<open>NaN\<close>, it is the
  \<^verbatim>\<open>invalid_enum_value\<close> error, whose message and context name the value; when the type is
  of another kind, or missing, it is the \<^verbatim>\<open>invalid_type\<close> error, which names the kind of
  the value (\<^verbatim>\<open>Required\<close> when it is missing). The \<^verbatim>\<open>INVALID_TYPE\<close> error of the \<^verbatim>\<open>default\<close>
  branch of \<open>validateByType\<close>, whose message names the value, is what that method returns
  when it is called on the candidate directly; \<open>validateTyped\<close> never takes that branch,
  since the type of an entry that passes \<open>validate\<close> is one of the five discriminants.
\<close>

theorem unknown_type_single_error:
  assumes "envelope_shaped_apart_from_type F kvs"
    and "field kvs ''type'' = v" and "v \<notin> JStr ` set MemoryEntryType"
  shows "validateMemoryEntry F (JObj kvs) =
           Inr (fail [if getParsedType v = ''string'' \<or> getParsedType v = ''number''
                      then enum_value_error F v else enum_type_error v])
   \<and> validate F (JObj kvs) = validateMemoryEntry F (JObj kvs)
   \<and> validateTyped F (JObj kvs) = validateMemoryEntry F (JObj kvs)
   \<and> validateByType F (JObj kvs) =
       Inr (fail [\<lparr>code = ''INVALID_TYPE'',
                   message = ''Unknown memory entry type: '' @ js_toString F v,
                   path = Some [''type''],
                   context = None\<rparr>])
   \<and> (validate F entry = Inr b \<and> success b \<and> data b = Some d \<longrightarrow>
        js_get d ''type'' \<in> JStr ` set MemoryEntryType)"
proof -
  let ?i = "if getParsedType v = ''string'' \<or> getParsedType v = ''number''
            then invalid_enum_value F [Key ''type''] MemoryEntryType v
            else invalid_type [Key ''type''] (joinValues MemoryEntryType) v"
  have no_issues: "snd (zparse F s [Key k] (field kvs k)) = []"
    if "(k, s) \<in> set MemoryEntryShape" "k \<noteq> ''type''" for k s
    using assms(1) that zparse_OK_no_issues[of F s "[Key k]" "field kvs k"]
    by (auto simp: envelope_shaped_apart_from_type_def list_all_iff)
  from nativeEnum_unknown[OF assms(3), of F "[Key ''type'']"] assms(2)
  have ty: "snd (zparse F (ZNativeEnum MemoryEntryType) [Key ''type''] (field kvs ''type'')) = [?i]"
    by simp
  have "snd (zparse F MemoryEntrySchema [] (JObj kvs)) = [?i]"
    unfolding MemoryEntrySchema_def zparse_ZObject
    using no_issues ty by (simp add: MemoryEntryShape_def)
  then have v: "validate F (JObj kvs) = Inr (fail [issue_error ?i])"
    by (simp add: validate_def parse_or_errors_failure)
  then have t: "validateTyped F (JObj kvs) = Inr (fail [issue_error ?i])"
    by (simp add: validateTyped_def)
  then have m: "validateMemoryEntry F (JObj kvs) = Inr (fail [issue_error ?i])"
    by (simp add: validateMemoryEntry_def)
  have i: "issue_error ?i = (if getParsedType v = ''string'' \<or> getParsedType v = ''number''
                      then enum_value_error F v else enum_type_error v)"
    by (simp add: issue_error_def invalid_enum_value_def invalid_type_def path_string_def
        enum_value_error_def enum_type_error_def)
  from validateByType_unknown[of kvs v, OF _ assms(3), of F] assms(2)
  have 4: "validateByType F (JObj kvs) =
     Inr (fail [\<lparr>code = ''INVALID_TYPE'',
                 message = ''Unknown memory entry type: '' @ js_toString F v,
                 path = Some [''type''],
                 context = None\<rparr>])"
    by (simp add: js_get_def)
  have 5: "js_get d ''type'' \<in> JStr ` set MemoryEntryType"
    if "validate F entry = Inr b \<and> success b \<and> data b = Some d"
    using that validate_type_known[of F entry b d] by blast
  from v t m i 4 5 show ?thesis by simp
qed

definition unknown_type_entry :: jsval where
  "unknown_type_entry =
     JObj (envelope ''Foo'' ''bad project!'' ''/x//y/'' (JObj [(''junk'', JNum (Fin 1))]))"

lemma validate_slash_entry:
  "validate sample_platform slash_entry = Inr (succeed slash_entry)"
  by (simp add: slash_entry_def commit_eval_defs)

theorem unknown_type_single_error_witness:
  "envelope_shaped_apart_from_type sample_platform
     (envelope ''Foo'' ''bad project!'' ''/x//y/'' (JObj [(''junk'', JNum (Fin 1))]))
   \<and> JStr ''Foo'' \<notin> JStr ` set MemoryEntryType
   \<and> validateMemoryEntry sample_platform unknown_type_entry =
     Inr (fail [\<lparr>code = ''invalid_enum_value'',
                 message = ''Invalid enum value. Expected '' @ joinValues MemoryEntryType
                   @ '', received '' @ [CHR 0x27] @ ''Foo'' @ [CHR 0x27],
                 path = Some [''type''],
                 context = Some [(''received'', JStr ''Foo''), (''expected'', JUndefined)]\<rparr>])
   \<and> validate sample_platform unknown_type_entry =
       validateMemoryEntry sample_platform unknown_type_entry
   \<and> validateByType sample_platform unknown_type_entry =
     Inr (fail [\<lparr>code = ''INVALID_TYPE'',
                 message = ''Unknown memory entry type: Foo'',
                 path = Some [''type''],
                 context = None\<rparr>])
   \<and> validate sample_platform slash_entry = Inr (succeed slash_entry)
   \<and> js_get slash_entry ''type'' \<in> JStr ` set MemoryEntryType"
proof -
  let ?kvs = "envelope ''Foo'' ''bad project!'' ''/x//y/'' (JObj [(''junk'', JNum (Fin 1))])"
  have s: "envelope_shaped_apart_from_type sample_platform ?kvs"
    by (simp add: envelope_shaped_apart_from_type_def eval_defs)
  have t: "field ?kvs ''type'' = JStr ''Foo''"
    by (simp add: field_def envelope_def)
  have n: "JStr ''Foo'' \<notin> JStr ` set MemoryEntryType"
    by (simp add: MemoryEntryType_def)
  from unknown_type_single_error[OF s t n, of slash_entry "succeed slash_entry" slash_entry]
    validate_slash_entry s n
  show ?thesis
    by (simp add: unknown_type_entry_def enum_value_error_def getParsedType_def succeed_def)
qed

section \<open>The task id\<close>

definition no_taskId_entry :: jsval where
  "no_taskId_entry =
     JObj (filter (\<lambda>(k, v). k \<noteq> ''taskId'') (envelope ''CommitDelta'' ''p'' ''b'' commit_content))"

definition null_taskId_entry :: jsval where
  "null_taskId_entry = JObj (envelope ''CommitDelta'' ''p'' ''b'' commit_content)"

text \<open>
  Claim C5 fails on the code. The envelope schema declares
  \<^verbatim>\<open>taskId: z.string().nullable()\<close>, which takes \<^verbatim>\<open>null\<close> but not a missing key: a
  \<^verbatim>\<open>CommitDelta\<close> entry that is valid with \<^verbatim>\<open>taskId: null\<close> is rejected, with the one error
  \<^verbatim>\<open>Required\<close> on the path \<^verbatim>\<open>["taskId"]\<close>, when the key is left out.
\<close>

theorem missing_taskId_rejected:
  "js_get no_taskId_entry ''taskId'' = JUndefined
   \<and> validateMemoryEntry sample_platform no_taskId_entry =
       Inr (fail [\<lparr>code = ''invalid_type'', message = ''Required'',
                   path = Some [''taskId''],
                   context = Some [(''received'', JStr ''undefined''), (''expected'', JStr ''string'')]\<rparr>])
   \<and> js_get null_taskId_entry ''taskId'' = JNull
   \<and> validateMemoryEntry sample_platform null_taskId_entry = Inr (succeed null_taskId_entry)"
proof -
  have 1: "validateMemoryEntry sample_platform no_taskId_entry =
       Inr (fail [\<lparr>code = ''invalid_type'', message = ''Required'',
                   path = Some [''taskId''],
                   context = Some [(''received'', JStr ''undefined''), (''expected'', JStr ''string'')]\<rparr>])"
    by (simp add: no_taskId_entry_def validateMemoryEntry_def commit_eval_defs)
  have 2: "validateMemoryEntry sample_platform null_taskId_entry = Inr (succeed null_taskId_entry)"
    by (simp add: null_taskId_entry_def validateMemoryEntry_def commit_eval_defs as_string_def
        pushed_def ProjectValidator_validate_def BranchValidator_validate_def
        ContentSizeValidator_validate_def sizeInBytes_commit(3)[unfolded commit_with_def, simplified]
        MAX_CONTENT_SIZE_def PROJECT_NAME_REGEX_test_def project_name_char_def
        BRANCH_NAME_REGEX_test_def branch_name_char_def startsWith_def endsWith_def)
  show ?thesis using 1 2
    by (simp add: no_taskId_entry_def null_taskId_entry_def js_get_def field_def envelope_def)
qed

theorem missing_taskId_rejected_witness:
  "validateMemoryEntry sample_platform no_taskId_entry
     \<noteq> validateMemoryEntry sample_platform null_taskId_entry"
  using missing_taskId_rejected by (simp add: succeed_def fail_def)

section \<open>Validating an accepted entry again\<close>

lemma object_reparse:
  assumes compat: "list_all2 (\<lambda>(k, s) (k', s'). k = k' \<and>
             (\<forall>y. fst (zparse F s' (pa @ [Key k]) (field kvs k)) = OK y
                  \<longrightarrow> fst (zparse F s (pa' @ [Key k]) y) = OK y)) shape shape'"
    and dist: "distinct (map fst shape')" and noproto: "''__proto__'' \<notin> set (map fst shape')"
    and ok: "fst (zparse F (ZObject shape') pa (JObj kvs)) = OK x"
  shows "fst (zparse F (ZObject shape) pa' x) = OK x"
proof -
  define f where "f = (\<lambda>(k, s). (k, fst (zparse F s (pa @ [Key k]) (field kvs k)), has_key kvs k))"
  define ps where "ps = map f shape'"
  let ?out = "kept ps"
  define g where "g = (\<lambda>(k, s). (k, fst (zparse F s (pa' @ [Key k]) (field ?out k)), has_key ?out k))"
  from ok have "mergeObjectSync False [] ps = OK x"
    by (simp add: zparse_ZObject ps_def f_def)
  then have oks: "list_all (\<lambda>p. is_OK (fst (snd p))) ps" and x: "x = JObj ?out"
    by (simp_all add: mergeObjectSync_OK_iff)
  have distps: "distinct (map fst ps)"
    using dist by (simp add: ps_def f_def comp_def case_prod_unfold)
  have len: "length shape = length shape'"
    using compat by (rule list_all2_lengthD)
  have step: "is_OK (fst (snd (g (shape ! i)))) \<and> kept [g (shape ! i)] = kept [f (shape' ! i)]"
    if i: "i < length shape" for i
  proof -
    obtain k s where ks: "shape ! i = (k, s)" by (cases "shape ! i") auto
    obtain k' s' where ks': "shape' ! i = (k', s')" by (cases "shape' ! i") auto
    from list_all2_nthD[OF compat i] ks ks' have kk: "k' = k"
      and c: "\<And>y. fst (zparse F s' (pa @ [Key k]) (field kvs k)) = OK y
                  \<Longrightarrow> fst (zparse F s (pa' @ [Key k]) y) = OK y"
      by auto
    let ?r = "fst (zparse F s' (pa @ [Key k]) (field kvs k))"
    from i len ks' kk have mem': "(k, s') \<in> set shape'"
      by (metis nth_mem)
    then have mem: "(k, ?r, has_key kvs k) \<in> set ps"
      by (force simp: ps_def f_def)
    from mem' noproto have kp: "k \<noteq> ''__proto__''" by force
    from oks mem have "is_OK ?r" by (auto simp: list_all_iff)
    then have r: "?r = OK (ok_value ?r)" by (simp add: is_OK_conv[symmetric])
    have fld: "field ?out k = ok_value ?r" by (rule field_kept[OF distps mem kp])
    have hk: "has_key ?out k \<longleftrightarrow> ok_value ?r \<noteq> JUndefined \<or> has_key kvs k"
      by (rule has_key_kept[OF distps mem kp])
    from c[OF r] have "fst (zparse F s (pa' @ [Key k]) (ok_value ?r)) = OK (ok_value ?r)" .
    with fld hk ks ks' kk show ?thesis
      by (auto simp: g_def f_def kept_Cons)
  qed
  have "list_all (\<lambda>p. is_OK (fst (snd p))) (map g shape)"
    using step by (auto simp: list_all_length)
  moreover have "kept (map g shape) = kept ps"
  proof -
    have "map (\<lambda>e. kept [g e]) shape = map (\<lambda>e. kept [f e]) shape'"
      by (rule nth_equalityI) (use step len in auto)
    then show ?thesis
      unfolding ps_def kept_map by simp
  qed
  ultimately show ?thesis
    using x by (simp add: zparse_ZObject g_def mergeObjectSync_OK_iff)
qed

lemma record_unknown_kept:
  "fst (zparse F (ZRecord ZUnknown) pa (JObj (kept ps))) = OK (JObj (kept ps))"
proof -
  have noproto: "''__proto__'' \<notin> set (map fst (kept ps))"
    using in_kept[of "''__proto__''" _ ps] by auto
  show ?thesis
    using kept_OK_True[OF noproto]
    by (simp add: zparse_ZRecord zparse.simps(3) mergeObjectSync_OK_iff list_all_iff split_beta)
qed

lemma succeed_eq [simp]: "succeed a = succeed b \<longleftrightarrow> a = b"
  by (simp add: succeed_def)

lemma variant_reparsed_by_base:
  assumes TC: "(T, C) \<in> set variants"
    and ok: "fst (zparse F (ZObject (variant_shape T C)) [] (JObj kvs)) = OK x"
  shows "fst (zparse F (ZObject MemoryEntryShape) [] x) = OK x"
proof -
  from variants_wf[OF TC] obtain cshape where C: "C = ZObject cshape"
    and wf: "wf_schema (ZObject (variant_shape T C))" by blast
  have same: "fst (zparse F s pa v) = OK y \<longrightarrow> fst (zparse F s pa' y) = OK y"
    if "wf_schema s" for s pa pa' v y
    using zparse_idem[OF that] by blast
  have ty: "fst (zparse F (ZLiteral T) pa v) = OK y \<longrightarrow> fst (zparse F (ZNativeEnum MemoryEntryType) pa' y) = OK y"
    for pa pa' v y
    using variants_known[OF TC] by (auto simp: zparse.simps(4,6) split: if_splits)
  have co: "fst (zparse F (ZObject cshape) pa v) = OK y \<longrightarrow> fst (zparse F (ZRecord ZUnknown) pa' y) = OK y"
    for pa pa' v y
    using zparse_ZObject_OK[of F cshape pa v y] record_unknown_kept by auto
  have "list_all2 (\<lambda>(k, s) (k', s'). k = k' \<and>
             (\<forall>y. fst (zparse F s' ([] @ [Key k]) (field kvs k)) = OK y
                  \<longrightarrow> fst (zparse F s ([] @ [Key k]) y) = OK y)) MemoryEntryShape (variant_shape T C)"
    unfolding MemoryEntryShape_def variant_shape_def C
    using same ty co by simp
  from object_reparse[OF this variant_shape_distinct _ ok] show ?thesis
    by (simp add: variant_shape_def)
qed

text \<open>
  Claim C4. When \<open>validateMemoryEntry\<close> succeeds with data \<open>d\<close>, validating \<open>d\<close> again
  gives the same result: success, with data \<open>d\<close> itself. (The entry returned is the
  candidate without the keys the schemas do not declare; parsing it again, by the
  envelope schema and by the variant's, changes nothing.)
\<close>

theorem revalidation_returns_same_result:
  assumes "validateMemoryEntry F entry = Inr r" and "success r" and "data r = Some d"
  shows "validateMemoryEntry F d = Inr r \<and> r = succeed d"
proof -
  from validateMemoryEntry_cases[of F entry] assms(1,2)
  obtain x p b c n where vt: "validateTyped F entry = Inr (succeed (JObj x))"
    and p: "field x ''project'' = JStr p" and b: "field x ''branch'' = JStr b"
    and c: "field x ''content'' = JObj c"
    and n: "sizeInBytes F (JObj c) = Inr n"
    and m: "validateMemoryEntry F entry =
             (if phase2_errors p b n (JObj c) (field x ''embedding'') \<noteq> []
              then Inr (fail (phase2_errors p b n (JObj c) (field x ''embedding'')))
              else Inr (succeed (JObj x)))"
    by auto
  from m assms have es: "phase2_errors p b n (JObj c) (field x ''embedding'') = []"
    and r: "r = succeed (JObj x)"
    by (auto split: if_splits)
  from r assms(3) have d: "d = JObj x" by simp
  from validateTyped_success[OF vt] obtain out T C where
    TC: "(T, C) \<in> set variants"
    and z2: "fst (zparse F (ZObject (variant_shape T C)) [] (JObj out)) = OK (JObj x)"
    by auto
  from variants_wf[OF TC] have wf: "wf_schema (ZObject (variant_shape T C))" by blast
  have base: "fst (zparse F MemoryEntrySchema [] (JObj x)) = OK (JObj x)"
    unfolding MemoryEntrySchema_def by (rule variant_reparsed_by_base[OF TC z2])
  have v1: "validate F (JObj x) = Inr (succeed (JObj x))"
    using parse_or_errors_cases[of F MemoryEntrySchema "JObj x"] base
    by (auto simp: validate_def)
  from object_field[OF z2 variant_shape_distinct, of "''type''" "ZLiteral T"]
  have "fst (zparse F (ZLiteral T) [Key ''type''] (field out ''type'')) = OK (field x ''type'')"
    by (simp add: variant_shape_def js_get_def)
  from zparse_ZLiteral_OK[OF this] have ty: "js_get (JObj x) ''type'' = JStr T"
    by (simp add: js_get_def)
  have "fst (zparse F (ZObject (variant_shape T C)) [] (JObj x)) = OK (JObj x)"
    by (rule zparse_idem[OF wf z2])
  with parse_or_errors_cases[of F "ZObject (variant_shape T C)" "JObj x"]
  have "parse_or_errors F (ZObject (variant_shape T C)) (JObj x) = Inr (succeed (JObj x))"
    by auto
  with validateByType_variant[OF TC ty, of F]
  have v2: "validateByType F (JObj x) = Inr (succeed (JObj x))" by simp
  from v1 v2 have "validateTyped F (JObj x) = Inr (succeed (JObj x))"
    by (simp add: validateTyped_def no_data_def truthy_def)
  from validateMemoryEntry_phase2[OF this p b, of n] es c n
  have "validateMemoryEntry F (JObj x) = Inr (succeed (JObj x))" by simp
  with r d show ?thesis by simp
qed

theorem revalidation_returns_same_result_witness:
  "validateMemoryEntry sample_platform (commit_entry ''m'' [(''junk'', JNull)]) =
     Inr (succeed (commit_entry ''m'' []))
   \<and> validateMemoryEntry sample_platform (commit_entry ''m'' []) =
     Inr (succeed (commit_entry ''m'' []))"
  using revalidation_returns_same_result[of sample_platform "commit_entry ''m'' [(''junk'', JNull)]"
      "succeed (commit_entry ''m'' [])" "commit_entry ''m'' []"]
    validateMemoryEntry_junk[of JNull]
  by simp

end
